theory Spec2Isabelle
  imports Main "HOL-Library.AList" "HOL-Library.Multiset"
begin

section \<open>Workflow runner: data model\<close>

text \<open>
  The development follows \<^verbatim>\<open>backend/workflow_runner.py\<close>. A Python \<^verbatim>\<open>dict\<close> keeps its
  keys in insertion order, so it is an association list with distinct keys: a lookup is
  \<^const>\<open>map_of\<close>, and an assignment \<^verbatim>\<open>d[k] = v\<close> is \<^const>\<open>AList.update\<close>, which
  overwrites in place when the key is present and appends the pair otherwise.

  A method that raises returns \<open>Inl\<close> of the exception; a method that writes the fields
  of the runner or calls out of the process takes the state and returns the new one. The
  coroutines run one after the other, as a single run awaits each call before the next.
  Strings are ASCII. The timestamp of a log entry and the copy that \<^verbatim>\<open>log\<close> prints are
  left out.
\<close>

type_synonym 'v dict = "(string \<times> 'v) list"

text \<open>
  JSON-like Python values. A float is given by the text that \<^verbatim>\<open>repr\<close> prints for it
  (\<^verbatim>\<open>0.5\<close>, \<^verbatim>\<open>-2.0\<close>, \<^verbatim>\<open>1e+300\<close>, \<^verbatim>\<open>inf\<close>, \<^verbatim>\<open>nan\<close>): the text determines the float, and
  \<^verbatim>\<open>str\<close>, the truth value and the sign are read off it. Arithmetic on floats stays
  outside the runner.
\<close>

datatype pyval =
    PNone
  | PBool bool
  | PInt int
  | PFloat string
  | PStr string
  | PList "pyval list"
  | PDict "(string \<times> pyval) list"

text \<open>The exceptions the runner can raise, each with the data its message is built from.\<close>

datatype error =
    KeyError string
  | ValueError string
  | IndexError string
  | AttributeError string
  | TypeError string
  | FileNotFoundError string
  | OverflowError string
  | ExternalError string

text \<open>
  A node is a dict with the keys \<^verbatim>\<open>id\<close>, \<^verbatim>\<open>type\<close> and \<^verbatim>\<open>data\<close> (an absent \<^verbatim>\<open>data\<close>
  reads as the empty dict); an edge has a \<^verbatim>\<open>source\<close> and a \<^verbatim>\<open>target\<close>, its other
  keys are never read.
\<close>

record node =
  node_id :: string
  node_type :: string
  node_data :: "pyval dict"

record edge =
  source :: string
  target :: string

section \<open>Execution order: \<^verbatim>\<open>build_execution_graph\<close>\<close>

text \<open>First loop: every node gets an empty successor list and in-degree 0.\<close>

fun init_nodes :: "node list \<Rightarrow> string list dict \<Rightarrow> int dict \<Rightarrow> string list dict \<times> int dict" where
  "init_nodes [] graph in_degree = (graph, in_degree)"
| "init_nodes (n # ns) graph in_degree =
     init_nodes ns (AList.update (node_id n) [] graph) (AList.update (node_id n) 0 in_degree)"

text \<open>
  Second loop: an edge whose source is not a node is skipped; otherwise the target is
  appended to the source's successors and \<^verbatim>\<open>in_degree[target] += 1\<close> raises
  \<^verbatim>\<open>KeyError\<close> when the target is not a node.
\<close>

fun add_edges :: "edge list \<Rightarrow> string list dict \<Rightarrow> int dict \<Rightarrow> error + (string list dict \<times> int dict)" where
  "add_edges [] graph in_degree = Inr (graph, in_degree)"
| "add_edges (e # es) graph in_degree =
     (case map_of graph (source e) of
        None \<Rightarrow> add_edges es graph in_degree
      | Some ts \<Rightarrow>
          (case map_of in_degree (target e) of
             None \<Rightarrow> Inl (KeyError (target e))
           | Some c \<Rightarrow>
               add_edges es (AList.update (source e) (ts @ [target e]) graph)
                 (AList.update (target e) (c + 1) in_degree)))"

text \<open>The inner \<^verbatim>\<open>for neighbor in graph[current]\<close> loop of Kahn's algorithm.\<close>

fun relax :: "int dict \<Rightarrow> string list \<Rightarrow> string list \<Rightarrow> error + (int dict \<times> string list)" where
  "relax in_degree queue [] = Inr (in_degree, queue)"
| "relax in_degree queue (neighbor # ns) =
     (case map_of in_degree neighbor of
        None \<Rightarrow> Inl (KeyError neighbor)
      | Some c \<Rightarrow>
          relax (AList.update neighbor (c - 1) in_degree)
            (if c - 1 = 0 then queue @ [neighbor] else queue) ns)"

text \<open>Number of entries with a positive in-degree: it bounds the enqueue operations left.\<close>

definition positives :: "int dict \<Rightarrow> nat" where
  "positives in_degree = length (filter (\<lambda>p. 0 < snd p) in_degree)"

text \<open>
  The \<^verbatim>\<open>while queue\<close> loop: \<^verbatim>\<open>queue.pop(0)\<close>, append to the order, relax the
  successors. Every enqueue turns a positive in-degree into zero, so the queue length plus
  the number of positive in-degrees decreases with each iteration.
\<close>

function kahn_loop :: "string list dict \<Rightarrow> int dict \<Rightarrow> string list \<Rightarrow> string list \<Rightarrow> error + string list" where
  "kahn_loop graph in_degree queue execution_order =
     (case queue of
        [] \<Rightarrow> Inr execution_order
      | current # rest \<Rightarrow>
          (case map_of graph current of
             None \<Rightarrow> Inl (KeyError current)
           | Some ns \<Rightarrow>
               (case relax in_degree rest ns of
                  Inl err \<Rightarrow> Inl err
                | Inr (in_degree', queue') \<Rightarrow>
                    kahn_loop graph in_degree' queue' (execution_order @ [current]))))"
  by pat_completeness auto
termination
proof (relation "measure (\<lambda>(graph, in_degree, queue, order). length queue + positives in_degree)")
  show "wf (measure (\<lambda>(graph, in_degree, queue, order). length queue + positives in_degree))"
    by simp
next
  fix graph :: "string list dict" and in_degree queue and execution_order :: "string list"
    and current rest ns x in_degree' queue'
  assume q: "queue = current # rest" and r: "relax in_degree rest ns = Inr x"
    and x: "(in_degree', queue') = x"
  have upd: "positives (AList.update k (c - 1) d) = (if c = 1 then positives d - 1 else positives d)
             \<and> (c = 1 \<longrightarrow> 0 < positives d)"
    if "map_of d k = Some c" for d :: "int dict" and k c
    using that by (induction d) (auto simp: positives_def split: if_splits)
  have keep: "length q' + positives d' = length q + positives d"
    if "relax d q ms = Inr (d', q')" for d d' :: "int dict" and q q' ms
    using that
  proof (induction ms arbitrary: d q)
    case Nil
    then show ?case by simp
  next
    case (Cons n ms)
    then obtain c where c: "map_of d n = Some c"
      by (auto split: option.splits)
    from Cons.prems c
    have "relax (AList.update n (c - 1) d) (if c - 1 = 0 then q @ [n] else q) ms = Inr (d', q')"
      by simp
    from Cons.IH [OF this] upd [OF c] show ?case
      by (auto split: if_splits)
  qed
  from keep [of in_degree rest ns in_degree' queue'] q r x
  show "((graph, in_degree', queue', execution_order @ [current]),
         (graph, in_degree, queue, execution_order))
        \<in> measure (\<lambda>(graph, in_degree, queue, order). length queue + positives in_degree)"
    by simp
qed

declare kahn_loop.simps [simp del]

definition cycle_message :: string where
  "cycle_message = ''Workflow contains cycles and cannot be executed''"

definition build_execution_graph :: "node list \<Rightarrow> edge list \<Rightarrow> error + string list" where
  "build_execution_graph nodes edges =
     (case init_nodes nodes [] [] of (graph0, in_degree0) \<Rightarrow>
        (case add_edges edges graph0 in_degree0 of
           Inl err \<Rightarrow> Inl err
         | Inr (graph, in_degree) \<Rightarrow>
             (case kahn_loop graph in_degree
                     (map fst (filter (\<lambda>p. snd p = 0) in_degree)) [] of
                Inl err \<Rightarrow> Inl err
              | Inr execution_order \<Rightarrow>
                  if length execution_order \<noteq> length nodes
                  then Inl (ValueError cycle_message)
                  else Inr execution_order)))"

section \<open>Python values: truthiness, \<^verbatim>\<open>str\<close>, \<^verbatim>\<open>repr\<close>, \<^verbatim>\<open>dict.get\<close>\<close>

fun type_name :: "pyval \<Rightarrow> string" where
  "type_name PNone = ''NoneType''"
| "type_name (PBool b) = ''bool''"
| "type_name (PInt n) = ''int''"
| "type_name (PFloat r) = ''float''"
| "type_name (PStr s) = ''str''"
| "type_name (PList xs) = ''list''"
| "type_name (PDict d) = ''dict''"

text \<open>Truth value of an object, as \<^verbatim>\<open>not x\<close> and \<^verbatim>\<open>if x\<close> test it.\<close>

fun py_bool :: "pyval \<Rightarrow> bool" where
  "py_bool PNone = False"
| "py_bool (PBool b) = b"
| "py_bool (PInt n) = (n \<noteq> 0)"
| "py_bool (PFloat r) = (r \<noteq> ''0.0'' \<and> r \<noteq> ''-0.0'')"
| "py_bool (PStr s) = (s \<noteq> [])"
| "py_bool (PList xs) = (xs \<noteq> [])"
| "py_bool (PDict d) = (d \<noteq> [])"

fun nat_digits :: "nat \<Rightarrow> string" where
  "nat_digits n =
     (if n < 10 then [''0123456789'' ! n]
      else nat_digits (n div 10) @ [''0123456789'' ! (n mod 10)])"

declare nat_digits.simps [simp del]

definition int_str :: "int \<Rightarrow> string" where
  "int_str n = (if n < 0 then ''-'' @ nat_digits (nat (- n)) else nat_digits (nat n))"

text \<open>\<^verbatim>\<open>sep.join(xs)\<close>.\<close>

fun join :: "string \<Rightarrow> string list \<Rightarrow> string" where
  "join sep [] = []"
| "join sep [x] = x"
| "join sep (x # y # ys) = x @ sep @ join sep (y # ys)"

text \<open>
  \<^verbatim>\<open>repr\<close> of a string of ASCII characters: double quotes only when the string has a
  single quote and no double quote; the quote and the backslash are escaped, as are
  tab, newline, carriage return and the other control characters.
\<close>

definition hex2 :: "nat \<Rightarrow> string" where
  "hex2 n = [''0123456789abcdef'' ! (n div 16), ''0123456789abcdef'' ! (n mod 16)]"

definition escape_char :: "char \<Rightarrow> char \<Rightarrow> string" where
  "escape_char quote c =
     (if c = quote \<or> c = CHR 0x5C then [CHR 0x5C, c]
      else if c = CHR 0x09 then [CHR 0x5C, CHR ''t'']
      else if c = CHR 0x0A then [CHR 0x5C, CHR ''n'']
      else if c = CHR 0x0D then [CHR 0x5C, CHR ''r'']
      else if (of_char c :: nat) < 32 \<or> (of_char c :: nat) = 127
        then [CHR 0x5C, CHR ''x''] @ hex2 (of_char c)
      else [c])"

definition str_repr :: "string \<Rightarrow> string" where
  "str_repr s =
     (let quote = (if CHR 0x27 \<in> set s \<and> CHR 0x22 \<notin> set s then CHR 0x22 else CHR 0x27)
      in [quote] @ concat (map (escape_char quote) s) @ [quote])"

fun py_repr :: "pyval \<Rightarrow> string" where
  "py_repr PNone = ''None''"
| "py_repr (PBool b) = (if b then ''True'' else ''False'')"
| "py_repr (PInt n) = int_str n"
| "py_repr (PFloat r) = r"
| "py_repr (PStr s) = str_repr s"
| "py_repr (PList xs) = ''['' @ join '', '' (map py_repr xs) @ '']''"
| "py_repr (PDict d) =
     ''{'' @ join '', '' (map (\<lambda>p. str_repr (fst p) @ '': '' @ py_repr (snd p)) d) @ ''}''"

fun py_str :: "pyval \<Rightarrow> string" where
  "py_str (PStr s) = s"
| "py_str v = py_repr v"

text \<open>A name between single quotes, as Python's messages print it.\<close>

definition quoted :: "string \<Rightarrow> string" where
  "quoted s = [CHR 0x27] @ s @ [CHR 0x27]"

text \<open>\<^verbatim>\<open>d.get(k, default)\<close> on a dict with a string key.\<close>

definition dict_get :: "pyval dict \<Rightarrow> string \<Rightarrow> pyval \<Rightarrow> pyval" where
  "dict_get d k dflt = (case map_of d k of None \<Rightarrow> dflt | Some v \<Rightarrow> v)"

text \<open>
  The key of \<^verbatim>\<open>d.get(key, default)\<close> may be any configured value: a list or a dict is
  unhashable, any other non-string is never a key of a JSON object.
\<close>

fun dict_get_key :: "pyval dict \<Rightarrow> pyval \<Rightarrow> pyval \<Rightarrow> error + pyval" where
  "dict_get_key d (PStr k) dflt = Inr (dict_get d k dflt)"
| "dict_get_key d (PList xs) dflt = Inl (TypeError (''unhashable type: '' @ quoted ''list''))"
| "dict_get_key d (PDict kvs) dflt = Inl (TypeError (''unhashable type: '' @ quoted ''dict''))"
| "dict_get_key d v dflt = Inr dflt"

definition no_attribute :: "pyval \<Rightarrow> string \<Rightarrow> string" where
  "no_attribute v a = quoted (type_name v) @ '' object has no attribute '' @ quoted a"

text \<open>The receiver of a \<^verbatim>\<open>.get\<close> call has to be a dict; on any other value the call raises.\<close>

fun dict_of :: "pyval \<Rightarrow> error + pyval dict" where
  "dict_of (PDict d) = Inr d"
| "dict_of v = Inl (AttributeError (no_attribute v ''get''))"

text \<open>\<^verbatim>\<open>d.update(other)\<close>: the items of \<^verbatim>\<open>other\<close> are assigned in their order.\<close>

definition dict_update :: "'v dict \<Rightarrow> 'v dict \<Rightarrow> 'v dict" where
  "dict_update d other = fold (\<lambda>p acc. AList.update (fst p) (snd p) acc) other d"

text \<open>\<^verbatim>\<open>str(e)\<close> of an exception.\<close>

fun error_str :: "error \<Rightarrow> string" where
  "error_str (KeyError k) = str_repr k"
| "error_str (ValueError m) = m"
| "error_str (IndexError m) = m"
| "error_str (AttributeError m) = m"
| "error_str (TypeError m) = m"
| "error_str (FileNotFoundError p) = ''[Errno 2] No such file or directory: '' @ str_repr p"
| "error_str (OverflowError m) = m"
| "error_str (ExternalError m) = m"

definition ascii_upper :: "char \<Rightarrow> char" where
  "ascii_upper c =
     (if 97 \<le> (of_char c :: nat) \<and> (of_char c :: nat) \<le> 122 then char_of (of_char c - (32::nat)) else c)"

definition ascii_lower :: "char \<Rightarrow> char" where
  "ascii_lower c =
     (if 65 \<le> (of_char c :: nat) \<and> (of_char c :: nat) \<le> 90 then char_of (of_char c + (32::nat)) else c)"

text \<open>\<^verbatim>\<open>s.startswith(p)\<close> and \<^verbatim>\<open>p in s\<close>.\<close>

definition startswith :: "string \<Rightarrow> string \<Rightarrow> bool" where
  "startswith s p = (take (length p) s = p)"

fun contains :: "string \<Rightarrow> string \<Rightarrow> bool" where
  "contains [] p = (p = [])"
| "contains (c # cs) p = (startswith (c # cs) p \<or> contains cs p)"

section \<open>The runner's state and its collaborators\<close>

text \<open>
  The runner object holds the log and the outputs of the nodes executed so far. A log entry
  is a level and a message (its timestamp is left out); \<open>ext\<close> is the state of everything
  outside the process: files, the network, the database, the plugins, the clock.
\<close>

record 'x state =
  logs :: "(string \<times> string) list"
  node_outputs :: "pyval dict dict"
  ext :: 'x

record http_response =
  status_code :: int
  headers :: "string dict"
  text_body :: string
  json_body :: "error + pyval"

text \<open>
  The calls that leave the runner: the plugin manager, the HTTP client, the file system,
  SQLite, \<^verbatim>\<open>json.dumps\<close>, the comparison of two values converted by \<^verbatim>\<open>float\<close>, and
  the timer of the event loop, on which \<^verbatim>\<open>asyncio.sleep\<close> waits for a positive delay: it
  returns when the delay has passed, or raises (\<^verbatim>\<open>OverflowError\<close> for an integer too
  large for a float).
\<close>

record 'x env =
  execute_plugin :: "pyval \<Rightarrow> pyval dict \<Rightarrow> pyval \<Rightarrow> 'x \<Rightarrow> (error + pyval) \<times> 'x"
  http_send :: "string \<Rightarrow> pyval \<Rightarrow> pyval \<Rightarrow> pyval option \<Rightarrow> 'x \<Rightarrow> (error + http_response) \<times> 'x"
  file_read :: "pyval \<Rightarrow> 'x \<Rightarrow> (error + string) \<times> 'x"
  file_write :: "pyval \<Rightarrow> pyval \<Rightarrow> 'x \<Rightarrow> (error + unit) \<times> 'x"
  file_append :: "pyval \<Rightarrow> pyval \<Rightarrow> 'x \<Rightarrow> (error + unit) \<times> 'x"
  path_exists :: "pyval \<Rightarrow> 'x \<Rightarrow> (error + bool) \<times> 'x"
  db_connect :: "pyval \<Rightarrow> 'x \<Rightarrow> (error + unit) \<times> 'x"
  db_query :: "pyval \<Rightarrow> pyval \<Rightarrow> 'x \<Rightarrow> (error + pyval list) \<times> 'x"
  db_execute :: "pyval \<Rightarrow> pyval \<Rightarrow> 'x \<Rightarrow> (error + int) \<times> 'x"
  db_close :: "'x \<Rightarrow> 'x"
  json_dumps :: "pyval \<Rightarrow> error + string"
  float_greater :: "pyval \<Rightarrow> pyval \<Rightarrow> error + bool"
  float_less :: "pyval \<Rightarrow> pyval \<Rightarrow> error + bool"
  timer :: "pyval \<Rightarrow> 'x \<Rightarrow> (error + unit) \<times> 'x"

definition log :: "string \<Rightarrow> string \<Rightarrow> 'x state \<Rightarrow> 'x state" where
  "log message level st = st\<lparr>logs := logs st @ [(level, message)]\<rparr>"

definition clear_logs :: "'x state \<Rightarrow> 'x state" where
  "clear_logs st = st\<lparr>logs := []\<rparr>"

text \<open>Lifting the result of an external call into the runner's state.\<close>

definition external :: "('x \<Rightarrow> (error + 'a) \<times> 'x) \<Rightarrow> 'x state \<Rightarrow> (error + 'a) \<times> 'x state" where
  "external call st = (case call (ext st) of (r, x) \<Rightarrow> (r, st\<lparr>ext := x\<rparr>))"

section \<open>Node handlers\<close>

definition execute_http_request :: "'x env \<Rightarrow> pyval \<Rightarrow> 'x state \<Rightarrow> (error + pyval) \<times> 'x state" where
  "execute_http_request env config st =
     (case dict_of config of
        Inl e \<Rightarrow> (Inl e, st)
      | Inr cfg \<Rightarrow>
          (case dict_get cfg ''method'' (PStr ''GET'') of
             PStr m \<Rightarrow>
               (let method = map ascii_upper m;
                    url = dict_get cfg ''url'' (PStr '''');
                    hdrs = dict_get cfg ''headers'' (PDict []);
                    body = dict_get cfg ''body'' (PStr '''')
                in if \<not> py_bool url then (Inl (ValueError ''URL is required for HTTP request''), st)
                   else
                     (let st1 = log (''Making '' @ method @ '' request to '' @ py_str url) ''INFO'' st
                      in if method \<in> {''GET'', ''POST'', ''PUT'', ''DELETE''} then
                           (case external (http_send env method url hdrs
                                   (if method \<in> {''POST'', ''PUT''} then Some body else None)) st1 of
                              (Inl e, st2) \<Rightarrow> (Inl e, st2)
                            | (Inr response, st2) \<Rightarrow>
                                (case (if startswith (case map_of (headers response) ''content-type'' of
                                                        None \<Rightarrow> '''' | Some v \<Rightarrow> v) ''application/json''
                                       then json_body response else Inr PNone) of
                                   Inl e \<Rightarrow> (Inl e, st2)
                                 | Inr j \<Rightarrow>
                                     (Inr (PDict
                                        [(''status_code'', PInt (status_code response)),
                                         (''headers'', PDict (map (\<lambda>p. (fst p, PStr (snd p))) (headers response))),
                                         (''body'', PStr (text_body response)),
                                         (''json'', j)]),
                                      log (''HTTP request completed with status ''
                                             @ int_str (status_code response)) ''INFO'' st2)))
                         else (Inl (ValueError (''Unsupported HTTP method: '' @ method)), st1)))
           | v \<Rightarrow> (Inl (AttributeError (no_attribute v ''upper'')), st)))"

definition execute_transform :: "pyval dict \<Rightarrow> pyval \<Rightarrow> 'x state \<Rightarrow> (error + pyval) \<times> 'x state" where
  "execute_transform input_data config st =
     (case dict_of config of
        Inl e \<Rightarrow> (Inl e, st)
      | Inr cfg \<Rightarrow>
          (let transform_type = dict_get cfg ''transformType'' (PStr ''uppercase'');
               input_key = dict_get cfg ''inputKey'' (PStr ''value'')
           in case dict_get_key input_data input_key (PStr '''') of
                Inl e \<Rightarrow> (Inl e, st)
              | Inr input_value \<Rightarrow>
                  (let result =
                         (if transform_type = PStr ''uppercase'' then PStr (map ascii_upper (py_str input_value))
                          else if transform_type = PStr ''lowercase'' then PStr (map ascii_lower (py_str input_value))
                          else if transform_type = PStr ''reverse'' then PStr (rev (py_str input_value))
                          else if transform_type = PStr ''length'' then PInt (int (length (py_str input_value)))
                          else input_value)
                   in (Inr result,
                       log (''Transform '' @ py_str transform_type @ '' applied, result: '' @ py_str result)
                         ''INFO'' st))))"

text \<open>The body of the \<^verbatim>\<open>try\<close> block of \<^verbatim>\<open>execute_file_operation\<close>.\<close>

definition file_operation_body :: "'x env \<Rightarrow> pyval \<Rightarrow> pyval \<Rightarrow> pyval \<Rightarrow> 'x state \<Rightarrow> (error + pyval) \<times> 'x state" where
  "file_operation_body env operation file_path content st =
     (if operation = PStr ''read'' then
        (case external (file_read env file_path) st of
           (Inl e, st1) \<Rightarrow> (Inl e, st1)
         | (Inr read_content, st1) \<Rightarrow>
             (Inr (PStr read_content), log (''File read from '' @ py_str file_path) ''INFO'' st1))
      else if operation = PStr ''write'' then
        (case external (file_write env file_path content) st of
           (Inl e, st1) \<Rightarrow> (Inl e, st1)
         | (Inr u, st1) \<Rightarrow>
             (Inr (PStr (''File written successfully to '' @ py_str file_path)),
              log (''File written to '' @ py_str file_path) ''INFO'' st1))
      else if operation = PStr ''append'' then
        (case external (file_append env file_path content) st of
           (Inl e, st1) \<Rightarrow> (Inl e, st1)
         | (Inr u, st1) \<Rightarrow>
             (Inr (PStr (''Content appended successfully to '' @ py_str file_path)),
              log (''Content appended to '' @ py_str file_path) ''INFO'' st1))
      else if operation = PStr ''exists'' then
        (case external (path_exists env file_path) st of
           (Inl e, st1) \<Rightarrow> (Inl e, st1)
         | (Inr exists, st1) \<Rightarrow>
             (Inr (PBool exists),
              log (''File existence check for '' @ py_str file_path @ '': '' @ py_str (PBool exists))
                ''INFO'' st1))
      else (Inl (ValueError (''Unknown file operation: '' @ py_str operation)), st))"

text \<open>The \<^verbatim>\<open>except\<close> clause logs the failure and raises it again.\<close>

definition execute_file_operation :: "'x env \<Rightarrow> pyval \<Rightarrow> 'x state \<Rightarrow> (error + pyval) \<times> 'x state" where
  "execute_file_operation env config st =
     (case dict_of config of
        Inl e \<Rightarrow> (Inl e, st)
      | Inr cfg \<Rightarrow>
          (let operation = dict_get cfg ''operation'' (PStr ''read'');
               file_path = dict_get cfg ''filePath'' (PStr '''');
               content = dict_get cfg ''content'' (PStr '''')
           in if \<not> py_bool file_path
              then (Inl (ValueError ''File path is required for file operations''), st)
              else
                (case file_operation_body env operation file_path content st of
                   (Inl e, st1) \<Rightarrow> (Inl e, log (''File operation failed: '' @ error_str e) ''ERROR'' st1)
                 | (Inr r, st1) \<Rightarrow> (Inr r, st1))))"

definition database_operation_body :: "'x env \<Rightarrow> pyval \<Rightarrow> pyval \<Rightarrow> pyval \<Rightarrow> pyval \<Rightarrow> 'x state \<Rightarrow> (error + pyval) \<times> 'x state" where
  "database_operation_body env operation database_path query params st =
     (case external (db_connect env database_path) st of
        (Inl e, st1) \<Rightarrow> (Inl e, st1)
      | (Inr u, st1) \<Rightarrow>
          (if operation = PStr ''query'' then
             (case external (db_query env query params) st1 of
                (Inl e, st2) \<Rightarrow> (Inl e, st2)
              | (Inr results, st2) \<Rightarrow>
                  (Inr (PList results),
                   log (''Database query executed, returned '' @ int_str (int (length results)) @ '' rows'')
                     ''INFO'' st2))
           else if operation = PStr ''execute'' then
             (case external (db_execute env query params) st1 of
                (Inl e, st2) \<Rightarrow> (Inl e, st2)
              | (Inr rowcount, st2) \<Rightarrow>
                  (Inr (PStr (''Query executed successfully, affected '' @ int_str rowcount @ '' rows'')),
                   log (''Database execute completed, affected '' @ int_str rowcount @ '' rows'')
                     ''INFO'' st2))
           else (Inl (ValueError (''Unknown database operation: '' @ py_str operation)),
                 st1\<lparr>ext := db_close env (ext st1)\<rparr>)))"

definition execute_database_operation :: "'x env \<Rightarrow> pyval \<Rightarrow> 'x state \<Rightarrow> (error + pyval) \<times> 'x state" where
  "execute_database_operation env config st =
     (case dict_of config of
        Inl e \<Rightarrow> (Inl e, st)
      | Inr cfg \<Rightarrow>
          (let operation = dict_get cfg ''operation'' (PStr ''query'');
               database_path = dict_get cfg ''databasePath'' (PStr ''data/workflow_data.db'');
               query = dict_get cfg ''query'' (PStr '''');
               params = dict_get cfg ''params'' (PList [])
           in if \<not> py_bool query
              then (Inl (ValueError ''Query is required for database operations''), st)
              else
                (case database_operation_body env operation database_path query params st of
                   (Inl e, st1) \<Rightarrow> (Inl e, log (''Database operation failed: '' @ error_str e) ''ERROR'' st1)
                 | (Inr r, st1) \<Rightarrow> (Inr r, st1))))"

text \<open>
  The numeric comparators catch \<^verbatim>\<open>ValueError\<close> and \<^verbatim>\<open>TypeError\<close> only; any other
  exception of the conversion leaves the handler.
\<close>

definition numeric_branch :: "error + bool \<Rightarrow> pyval \<Rightarrow> pyval \<Rightarrow> error + pyval" where
  "numeric_branch cmp true_value false_value =
     (case cmp of
        Inr b \<Rightarrow> Inr (if b then true_value else false_value)
      | Inl (ValueError m) \<Rightarrow> Inr false_value
      | Inl (TypeError m) \<Rightarrow> Inr false_value
      | Inl e \<Rightarrow> Inl e)"

definition execute_condition :: "'x env \<Rightarrow> pyval dict \<Rightarrow> pyval \<Rightarrow> 'x state \<Rightarrow> (error + pyval) \<times> 'x state" where
  "execute_condition env input_data config st =
     (case dict_of config of
        Inl e \<Rightarrow> (Inl e, st)
      | Inr cfg \<Rightarrow>
          (let condition_type = dict_get cfg ''conditionType'' (PStr ''equals'');
               input_key = dict_get cfg ''inputKey'' (PStr ''value'');
               expected_value = dict_get cfg ''expectedValue'' (PStr '''');
               true_value = dict_get cfg ''trueValue'' (PStr ''true'');
               false_value = dict_get cfg ''falseValue'' (PStr ''false'')
           in case dict_get_key input_data input_key (PStr '''') of
                Inl e \<Rightarrow> (Inl e, st)
              | Inr input_value \<Rightarrow>
                  (case (if condition_type = PStr ''equals'' then
                           Inr (if py_str input_value = py_str expected_value then true_value else false_value)
                         else if condition_type = PStr ''not_equals'' then
                           Inr (if py_str input_value \<noteq> py_str expected_value then true_value else false_value)
                         else if condition_type = PStr ''contains'' then
                           Inr (if contains (py_str input_value) (py_str expected_value)
                                then true_value else false_value)
                         else if condition_type = PStr ''greater_than'' then
                           numeric_branch (float_greater env input_value expected_value) true_value false_value
                         else if condition_type = PStr ''less_than'' then
                           numeric_branch (float_less env input_value expected_value) true_value false_value
                         else Inr false_value) of
                     Inl e \<Rightarrow> (Inl e, st)
                   | Inr result \<Rightarrow>
                       (Inr result,
                        log (''Condition '' @ py_str condition_type @ '' evaluated: '' @ py_str input_value
                               @ '' -> '' @ py_str result) ''INFO'' st))))"

text \<open>
  The comparison \<^verbatim>\<open>delay <= 0\<close>: \<open>None\<close> when it raises \<^verbatim>\<open>TypeError\<close>, as it does for a
  value that is not a number. The float \<^verbatim>\<open>nan\<close> compares false; a float is negative when
  its text starts with the minus sign.
\<close>

fun le_zero :: "pyval \<Rightarrow> bool option" where
  "le_zero (PInt n) = Some (n \<le> 0)"
| "le_zero (PBool b) = Some (\<not> b)"
| "le_zero (PFloat r) = Some (r = ''0.0'' \<or> (r \<noteq> [] \<and> hd r = CHR ''-''))"
| "le_zero v = None"

text \<open>
  \<^verbatim>\<open>asyncio.sleep(delay)\<close> starts with the comparison \<^verbatim>\<open>delay <= 0\<close>: it raises
  \<^verbatim>\<open>TypeError\<close> for a value that is not a number and returns at once, without a timer,
  for a delay that is zero or negative; otherwise it waits on the timer of the event loop.
  It has no error for a negative delay.
\<close>

definition asyncio_sleep :: "'x env \<Rightarrow> pyval \<Rightarrow> 'x state \<Rightarrow> (error + unit) \<times> 'x state" where
  "asyncio_sleep env delay st =
     (case le_zero delay of
        None \<Rightarrow>
          (Inl (TypeError (quoted ''<='' @ '' not supported between instances of ''
                             @ quoted (type_name delay) @ '' and '' @ quoted ''int'')), st)
      | Some True \<Rightarrow> (Inr (), st)
      | Some False \<Rightarrow> external (timer env delay) st)"

definition execute_delay :: "'x env \<Rightarrow> pyval \<Rightarrow> 'x state \<Rightarrow> (error + pyval) \<times> 'x state" where
  "execute_delay env config st =
     (case dict_of config of
        Inl e \<Rightarrow> (Inl e, st)
      | Inr cfg \<Rightarrow>
          (let delay_seconds = dict_get cfg ''delaySeconds'' (PInt 1);
               st1 = log (''Starting delay for '' @ py_str delay_seconds @ '' seconds'') ''INFO'' st
           in case asyncio_sleep env delay_seconds st1 of
                (Inl e, st2) \<Rightarrow> (Inl e, st2)
              | (Inr u, st2) \<Rightarrow>
                  (Inr (PStr (''Delayed for '' @ py_str delay_seconds @ '' seconds'')),
                   log (''Delay completed after '' @ py_str delay_seconds @ '' seconds'') ''INFO'' st2)))"

text \<open>
  The rows of \<^verbatim>\<open>format_as_table\<close>: \<^verbatim>\<open>row.get(header, '')\<close> for every header of the first
  element, so an element that is not a dict raises, unless there is no header to look up.
\<close>

definition table_row :: "string list \<Rightarrow> pyval \<Rightarrow> error + string list" where
  "table_row hs row =
     (if hs = [] then Inr []
      else (case dict_of row of
              Inl e \<Rightarrow> Inl e
            | Inr d \<Rightarrow> Inr (map (\<lambda>h. py_str (dict_get d h (PStr ''''))) hs)))"

fun table_rows :: "string list \<Rightarrow> pyval list \<Rightarrow> error + string list list" where
  "table_rows hs [] = Inr []"
| "table_rows hs (row # rest) =
     (case table_row hs row of
        Inl e \<Rightarrow> Inl e
      | Inr cells \<Rightarrow>
          (case table_rows hs rest of
             Inl e \<Rightarrow> Inl e
           | Inr rows \<Rightarrow> Inr (cells # rows)))"

definition table_lines :: "string list \<Rightarrow> string list list \<Rightarrow> string" where
  "table_lines hs rows =
     (let table = join '' | '' hs @ ''\<newline>'';
          table = table @ replicate (length table) CHR ''-'' @ ''\<newline>''
      in fold (\<lambda>row table. table @ join '' | '' row @ ''\<newline>'') rows table)"

fun format_as_table :: "pyval \<Rightarrow> error + string" where
  "format_as_table (PList (PDict first # rest)) =
     (case table_rows (map fst first) (PDict first # rest) of
        Inl e \<Rightarrow> Inl e
      | Inr rows \<Rightarrow> Inr (table_lines (map fst first) rows))"
| "format_as_table data = Inr (py_str data)"

definition execute_action :: "'x env \<Rightarrow> pyval \<Rightarrow> pyval dict \<Rightarrow> 'x state \<Rightarrow> (error + pyval) \<times> 'x state" where
  "execute_action env node_config input_data st =
     (case dict_of node_config of
        Inl e \<Rightarrow> (Inl e, st)
      | Inr cfg \<Rightarrow>
          (let action_type = dict_get cfg ''actionType'' (PStr ''log'');
               action_config = dict_get cfg ''actionConfig'' (PDict [])
           in if action_type = PStr ''log'' then
                (case dict_of action_config of
                   Inl e \<Rightarrow> (Inl e, st)
                 | Inr ac \<Rightarrow>
                     (let message = dict_get ac ''message'' (PStr ''No message provided'')
                      in (Inr message, log (''Log action: '' @ py_str message) ''INFO'' st)))
              else if action_type = PStr ''http_request'' then execute_http_request env action_config st
              else if action_type = PStr ''transform'' then execute_transform input_data action_config st
              else if action_type = PStr ''file_operation'' then execute_file_operation env action_config st
              else if action_type = PStr ''database'' then execute_database_operation env action_config st
              else if action_type = PStr ''condition'' then execute_condition env input_data action_config st
              else if action_type = PStr ''delay'' then execute_delay env action_config st
              else (Inr PNone, log (''Unknown action type: '' @ py_str action_type) ''WARNING'' st)))"

text \<open>The branches of \<^verbatim>\<open>execute_node\<close> inside its \<^verbatim>\<open>try\<close> block.\<close>

definition execute_node_body :: "'x env \<Rightarrow> node \<Rightarrow> pyval \<Rightarrow> pyval dict \<Rightarrow> 'x state \<Rightarrow> (error + pyval) \<times> 'x state" where
  "execute_node_body env node node_config input_data st =
     (if node_type node = ''input'' then
        (case dict_of node_config of
           Inl e \<Rightarrow> (Inl e, st)
         | Inr cfg \<Rightarrow>
             (let result = dict_get input_data ''value'' (dict_get cfg ''value'' (PStr ''''))
              in (Inr result, log (''Input node returned: '' @ py_str result) ''INFO'' st)))
      else if node_type node = ''plugin'' then
        (let plugin_id = dict_get (node_data node) ''pluginId'' PNone;
             plugin_config = dict_get (node_data node) ''config'' (PDict [])
         in if \<not> py_bool plugin_id then
              (Inl (ValueError (''Plugin ID not specified for node '' @ node_id node)),
               log (''Plugin ID not specified for node '' @ node_id node) ''ERROR'' st)
            else
              (case external (execute_plugin env plugin_id input_data plugin_config) st of
                 (Inl e, st1) \<Rightarrow> (Inl e, st1)
               | (Inr result, st1) \<Rightarrow>
                   (Inr result,
                    log (''Plugin node '' @ py_str plugin_id @ '' returned: '' @ py_str result) ''INFO'' st1)))
      else if node_type node = ''action'' then execute_action env node_config input_data st
      else if node_type node = ''output'' then
        (case dict_of node_config of
           Inl e \<Rightarrow> (Inl e, st)
         | Inr cfg \<Rightarrow>
             (let output_format = dict_get cfg ''format'' (PStr ''raw'');
                  output_value = dict_get input_data ''value'' (PStr '''')
              in case (if output_format = PStr ''json'' then json_dumps env output_value
                       else if output_format = PStr ''table'' then format_as_table output_value
                       else Inr (py_str output_value)) of
                   Inl e \<Rightarrow> (Inl e, st)
                 | Inr result \<Rightarrow>
                     (Inr (PStr result), log (''Output node formatted result: '' @ result) ''INFO'' st)))
      else (Inr PNone, log (''Unknown node type: '' @ node_type node) ''WARNING'' st))"

definition execute_node :: "'x env \<Rightarrow> node \<Rightarrow> pyval dict \<Rightarrow> 'x state \<Rightarrow> (error + pyval) \<times> 'x state" where
  "execute_node env node input_data st =
     (let node_config = dict_get (node_data node) ''config'' (PDict []);
          st1 = log (''Executing node '' @ node_id node @ '' of type '' @ node_type node) ''INFO'' st
      in case execute_node_body env node node_config input_data st1 of
           (Inl e, st2) \<Rightarrow>
             (Inl e, log (''Error executing node '' @ node_id node @ '': '' @ error_str e) ''ERROR'' st2)
         | (Inr result, st2) \<Rightarrow> (Inr result, st2))"

section \<open>Running a workflow\<close>

definition get_node_inputs :: "pyval dict dict \<Rightarrow> string \<Rightarrow> edge list \<Rightarrow> pyval dict" where
  "get_node_inputs outputs nid edges =
     fold (\<lambda>e inputs.
             if target e = nid then
               (case map_of outputs (source e) of
                  None \<Rightarrow> inputs
                | Some out \<Rightarrow> dict_update inputs out)
             else inputs) edges []"

text \<open>Input of a node in the loop of \<^verbatim>\<open>execute_workflow\<close>: the global input when nothing was gathered.\<close>

definition resolve_input :: "pyval dict dict \<Rightarrow> edge list \<Rightarrow> pyval dict \<Rightarrow> string \<Rightarrow> pyval dict" where
  "resolve_input outputs edges input_data nid =
     (let node_inputs = get_node_inputs outputs nid edges
      in if node_inputs = [] then input_data else node_inputs)"

text \<open>\<^verbatim>\<open>{node['id']: node for node in nodes}\<close>.\<close>

definition node_lookup :: "node list \<Rightarrow> node dict" where
  "node_lookup nodes = fold (\<lambda>n acc. AList.update (node_id n) n acc) nodes []"

text \<open>The \<^verbatim>\<open>for node_id in execution_order\<close> loop; it stops at the first node that raises.\<close>

fun run_nodes :: "'x env \<Rightarrow> node dict \<Rightarrow> edge list \<Rightarrow> pyval dict \<Rightarrow> string list \<Rightarrow> 'x state \<Rightarrow> (error + unit) \<times> 'x state" where
  "run_nodes env lookup edges input_data [] st = (Inr (), st)"
| "run_nodes env lookup edges input_data (nid # rest) st =
     (case map_of lookup nid of
        None \<Rightarrow> (Inl (KeyError nid), st)
      | Some node \<Rightarrow>
          (case execute_node env node (resolve_input (node_outputs st) edges input_data nid) st of
             (Inl e, st1) \<Rightarrow> (Inl e, st1)
           | (Inr result, st1) \<Rightarrow>
               run_nodes env lookup edges input_data rest
                 (st1\<lparr>node_outputs := AList.update nid [(''value'', result)] (node_outputs st1)\<rparr>)))"

definition outputs_value :: "pyval dict dict \<Rightarrow> pyval" where
  "outputs_value outputs = PDict (map (\<lambda>p. (fst p, PDict (snd p))) outputs)"

text \<open>The \<^verbatim>\<open>try\<close> block of \<^verbatim>\<open>execute_workflow\<close>; \<^verbatim>\<open>execution_order[-1]\<close> needs a non-empty order.\<close>

definition workflow_body :: "'x env \<Rightarrow> node list \<Rightarrow> edge list \<Rightarrow> pyval dict \<Rightarrow> 'x state \<Rightarrow> (error + pyval dict) \<times> 'x state" where
  "workflow_body env nodes edges input_data st =
     (case build_execution_graph nodes edges of
        Inl e \<Rightarrow> (Inl e, st)
      | Inr execution_order \<Rightarrow>
          (let st1 = log (''Execution order: '' @ py_str (PList (map PStr execution_order))) ''INFO'' st
           in case run_nodes env (node_lookup nodes) edges input_data execution_order st1 of
                (Inl e, st2) \<Rightarrow> (Inl e, st2)
              | (Inr u, st2) \<Rightarrow>
                  (if execution_order = [] then (Inl (IndexError ''list index out of range''), st2)
                   else
                     (let final_output =
                            dict_get (case map_of (node_outputs st2) (last execution_order) of
                                        None \<Rightarrow> [] | Some out \<Rightarrow> out) ''value'' PNone;
                          st3 = log ''Workflow execution completed successfully'' ''INFO'' st2
                      in (Inr [(''status'', PStr ''success''),
                               (''output'', final_output),
                               (''node_outputs'', outputs_value (node_outputs st3)),
                               (''execution_order'', PList (map PStr execution_order))],
                          st3)))))"

definition execute_workflow :: "'x env \<Rightarrow> node list \<Rightarrow> edge list \<Rightarrow> pyval dict option \<Rightarrow> 'x state \<Rightarrow> pyval dict \<times> 'x state" where
  "execute_workflow env nodes edges input_data st =
     (let st0 = (clear_logs st)\<lparr>node_outputs := []\<rparr>;
          input_dict = (case input_data of None \<Rightarrow> [] | Some d \<Rightarrow> d);
          st1 = log ''Starting workflow execution'' ''INFO'' st0
      in case workflow_body env nodes edges input_dict st1 of
           (Inr result, st2) \<Rightarrow> (result, st2)
         | (Inl e, st2) \<Rightarrow>
             (let st3 = log (''Workflow execution failed: '' @ error_str e) ''ERROR'' st2
              in ([(''status'', PStr ''failed''),
                   (''error'', PStr (error_str e)),
                   (''node_outputs'', outputs_value (node_outputs st3))],
                  st3)))"

section \<open>Notions used to state the properties\<close>

text \<open>The edges as a relation on node ids; a directed cycle is a failure of \<^const>\<open>acyclic\<close>.\<close>

definition edge_rel :: "edge list \<Rightarrow> (string \<times> string) set" where
  "edge_rel edges = (\<lambda>e. (source e, target e)) ` set edges"

text \<open>
  The nodes without an incoming edge, in the order of the node list. Edges whose source is
  not a node do not count: the second loop skips them.
\<close>

definition roots :: "node list \<Rightarrow> edge list \<Rightarrow> string list" where
  "roots nodes edges =
     filter (\<lambda>k. \<forall>e\<in>set edges. source e \<in> node_id ` set nodes \<longrightarrow> target e \<noteq> k)
       (map node_id nodes)"

text \<open>Edges into \<open>t\<close> whose source has not been emitted yet, and the successors of a node.\<close>

definition pending :: "edge list \<Rightarrow> string list \<Rightarrow> string \<Rightarrow> nat" where
  "pending E emitted t = length (filter (\<lambda>e. target e = t \<and> source e \<notin> set emitted) E)"

definition succs :: "edge list \<Rightarrow> string \<Rightarrow> string list" where
  "succs E s = map target (filter (\<lambda>e. source e = s) E)"

text \<open>
  The successors of \<open>c\<close> that have no pending edge once \<open>c\<close> is emitted after \<open>emitted\<close>, each
  at its last place in the successor list: the nodes that the loop appends to the queue.
\<close>

definition frees :: "edge list \<Rightarrow> string list \<Rightarrow> string \<Rightarrow> string list" where
  "frees E emitted c = filter (\<lambda>t. pending E (emitted @ [c]) t = 0) (remdups (succs E c))"

text \<open>Every edge into the \<open>j\<close>-th element of the order comes from one of the first \<open>j\<close> elements.\<close>

definition preds_first :: "edge list \<Rightarrow> string list \<Rightarrow> bool" where
  "preds_first E order \<longleftrightarrow>
     (\<forall>j<length order. \<forall>e\<in>set E. target e = order ! j \<longrightarrow> source e \<in> set (take j order))"

text \<open>
  The edges that lead from a node of the graph to \<open>nid\<close>, in the order of the edge list,
  and the shallow merge of a sequence of dicts, each updating the result of the ones before.
\<close>

definition upstream_edges :: "node list \<Rightarrow> edge list \<Rightarrow> string \<Rightarrow> edge list" where
  "upstream_edges nodes edges nid =
     filter (\<lambda>e. target e = nid \<and> source e \<in> node_id ` set nodes) edges"

definition merge_outputs :: "pyval dict list \<Rightarrow> pyval dict" where
  "merge_outputs ds = foldl dict_update [] ds"

text \<open>
  The input a node is to receive, given the stored outputs: the merge of the outputs of the
  sources of its upstream edges, or the global input when it has no upstream edge.
\<close>

definition merged_input :: "node list \<Rightarrow> edge list \<Rightarrow> pyval dict dict \<Rightarrow> pyval dict \<Rightarrow> string \<Rightarrow> pyval dict" where
  "merged_input nodes edges outputs input_data nid =
     (if upstream_edges nodes edges nid = [] then input_data
      else merge_outputs (map (\<lambda>e. the (map_of outputs (source e))) (upstream_edges nodes edges nid)))"

text \<open>
  The nodes that the emission of \<open>c\<close> releases, after the nodes \<open>emitted\<close> before it: the
  targets of the edges that leave \<open>c\<close>, in the order of the edge list (for parallel edges,
  at the last of them), whose every other edge comes from a node emitted before.
\<close>

definition released :: "node list \<Rightarrow> edge list \<Rightarrow> string list \<Rightarrow> string \<Rightarrow> string list" where
  "released nodes edges emitted c =
     filter (\<lambda>t. \<forall>e\<in>set edges. source e \<in> node_id ` set nodes \<and> target e = t \<longrightarrow>
                    source e \<in> set emitted \<or> source e = c)
       (remdups (map target (filter (\<lambda>e. source e = c) edges)))"

text \<open>The state in which the loop of \<^const>\<open>execute_workflow\<close> starts.\<close>

definition loop_start :: "'x state \<Rightarrow> string list \<Rightarrow> 'x state" where
  "loop_start st execution_order =
     log (''Execution order: '' @ py_str (PList (map PStr execution_order))) ''INFO''
       (log ''Starting workflow execution'' ''INFO'' ((clear_logs st)\<lparr>node_outputs := []\<rparr>))"

text \<open>
  The text of a table: the header line, a line of dashes one longer than the header, and
  one line per row with the values under the headers (the empty string where a row lacks
  a header).
\<close>

definition table_text :: "string list \<Rightarrow> pyval dict list \<Rightarrow> string" where
  "table_text hs rows =
     join '' | '' hs @ ''\<newline>''
     @ replicate (length (join '' | '' hs) + 1) CHR ''-'' @ ''\<newline>''
     @ concat (map (\<lambda>d. join '' | '' (map (\<lambda>h. py_str (dict_get d h (PStr ''''))) hs) @ ''\<newline>'') rows)"

text \<open>Example graphs: a node that only has an id, and an edge between two ids.\<close>

definition plain_node :: "string \<Rightarrow> node" where
  "plain_node k = \<lparr>node_id = k, node_type = ''input'', node_data = []\<rparr>"

definition link :: "string \<Rightarrow> string \<Rightarrow> edge" where
  "link s t = \<lparr>source = s, target = t\<rparr>"

text \<open>Example nodes: an action with its type and configuration, an output with its format.\<close>

definition action_node :: "string \<Rightarrow> string \<Rightarrow> pyval dict \<Rightarrow> node" where
  "action_node k action_type action_config =
     \<lparr>node_id = k, node_type = ''action'',
      node_data = [(''label'', PStr k),
                   (''config'', PDict [(''actionType'', PStr action_type),
                                       (''actionConfig'', PDict action_config)])]\<rparr>"

definition output_node :: "string \<Rightarrow> string \<Rightarrow> node" where
  "output_node k fmt =
     \<lparr>node_id = k, node_type = ''output'',
      node_data = [(''label'', PStr k), (''config'', PDict [(''format'', PStr fmt)])]\<rparr>"

text \<open>
  An example environment: a machine with no files, where every other call that leaves
  the runner is refused, except the timer: it lets the delay pass, and has no float for an
  integer from \<^verbatim>\<open>2**1024 - 2**970\<close> on, as the timer of the standard event loop. And a
  runner that has not run anything yet.
\<close>

definition offline_env :: "unit env" where
  "offline_env =
     \<lparr>execute_plugin = (\<lambda>plugin_id input_data config x. (Inl (ExternalError ''no plugins''), x)),
      http_send = (\<lambda>method url hdrs body x. (Inl (ExternalError ''no network''), x)),
      file_read = (\<lambda>path x. (Inl (FileNotFoundError (py_str path)), x)),
      file_write = (\<lambda>path content x. (Inl (ExternalError ''read-only file system''), x)),
      file_append = (\<lambda>path content x. (Inl (ExternalError ''read-only file system''), x)),
      path_exists = (\<lambda>path x. (Inr False, x)),
      db_connect = (\<lambda>path x. (Inl (ExternalError ''no database''), x)),
      db_query = (\<lambda>query params x. (Inl (ExternalError ''no database''), x)),
      db_execute = (\<lambda>query params x. (Inl (ExternalError ''no database''), x)),
      db_close = (\<lambda>x. x),
      json_dumps = (\<lambda>v. Inl (ExternalError ''no encoder'')),
      float_greater = (\<lambda>a b. Inl (ExternalError ''no float'')),
      float_less = (\<lambda>a b. Inl (ExternalError ''no float'')),
      timer = (\<lambda>delay x.
                 case delay of
                   PInt n \<Rightarrow>
                     if 2 ^ 1024 - 2 ^ 970 \<le> n
                     then (Inl (OverflowError ''int too large to convert to float''), x)
                     else (Inr (), x)
                 | _ \<Rightarrow> (Inr (), x))\<rparr>"

definition idle :: "unit state" where
  "idle = \<lparr>logs = [], node_outputs = [], ext = ()\<rparr>"

section \<open>The execution order is a topological order\<close>

lemma pending_zero: "pending E emitted t = 0 \<longleftrightarrow> (\<forall>e\<in>set E. target e = t \<longrightarrow> source e \<in> set emitted)"
  by (auto simp: pending_def filter_empty_conv)

lemma pending_split:
  "c \<notin> set emitted \<Longrightarrow> pending E emitted t = pending E (emitted @ [c]) t + count_list (succs E c) t"
  by (induction E) (auto simp: pending_def succs_def)

lemma map_of_update_other: "map_of (AList.update k v al) t = (if t = k then Some v else map_of al t)"
  by (simp add: update_conv')

lemma keys_update_present: "k \<in> set (map fst al) \<Longrightarrow> map fst (AList.update k v al) = map fst al"
  by (simp add: update_keys)

lemma relax_inv:
  assumes "map fst d = K" "set todo \<subseteq> set K"
    "\<forall>t\<in>set K. map_of d t = Some (int (N t + count_list todo t))"
    "distinct (pre @ q)" "set (pre @ q) \<subseteq> set K"
    "\<forall>t\<in>set K. t \<in> set (pre @ q) \<longleftrightarrow> N t + count_list todo t = 0"
  shows "\<exists>d' add. relax d q todo = Inr (d', q @ add) \<and> map fst d' = K \<and>
           (\<forall>t\<in>set K. map_of d' t = Some (int (N t))) \<and>
           distinct (pre @ q @ add) \<and> set (pre @ q @ add) \<subseteq> set K \<and>
           (\<forall>t\<in>set K. t \<in> set (pre @ q @ add) \<longleftrightarrow> N t = 0)"
  using assms
proof (induction todo arbitrary: d q)
  case Nil
  then show ?case by simp
next
  case (Cons n ns)
  let ?c = "int (N n + count_list ns n) + 1"
  let ?d1 = "AList.update n (?c - 1) d"
  let ?q1 = "if ?c - 1 = 0 then q @ [n] else q"
  from Cons.prems have nK: "n \<in> set K" by simp
  with Cons.prems have c: "map_of d n = Some ?c" by simp
  from nK Cons.prems have n_new: "n \<notin> set (pre @ q)" by simp
  have step: "relax d q (n # ns) = relax ?d1 ?q1 ns"
    using c by simp
  have k1: "map fst ?d1 = K"
    using nK Cons.prems(1) by (simp add: keys_update_present)
  have v1: "\<forall>t\<in>set K. map_of ?d1 t = Some (int (N t + count_list ns t))"
    using Cons.prems(3) by (simp add: map_of_update_other)
  have d1: "distinct (pre @ ?q1)"
    using Cons.prems(4) n_new by auto
  have s1: "set (pre @ ?q1) \<subseteq> set K"
    using Cons.prems(5) nK by auto
  have m1: "\<forall>t\<in>set K. t \<in> set (pre @ ?q1) \<longleftrightarrow> N t + count_list ns t = 0"
  proof
    fix t assume tK: "t \<in> set K"
    show "t \<in> set (pre @ ?q1) \<longleftrightarrow> N t + count_list ns t = 0"
    proof (cases "t = n")
      case True
      then show ?thesis using n_new by auto
    next
      case False
      then show ?thesis using Cons.prems(6) tK by auto
    qed
  qed
  from Cons.prems(2) have "set ns \<subseteq> set K" by simp
  from Cons.IH [OF k1 this v1 d1 s1 m1]
  obtain d' add where r: "relax ?d1 ?q1 ns = Inr (d', ?q1 @ add)" "map fst d' = K"
      "\<forall>t\<in>set K. map_of d' t = Some (int (N t))"
      "distinct (pre @ ?q1 @ add)" "set (pre @ ?q1 @ add) \<subseteq> set K"
      "\<forall>t\<in>set K. t \<in> set (pre @ ?q1 @ add) \<longleftrightarrow> N t = 0"
    by blast
  obtain add' where a: "?q1 @ add = q @ add'"
    by (cases "?c - 1 = 0") auto
  show ?case
    using r step unfolding a by metis
qed

lemma relax_queue:
  assumes "\<forall>t\<in>set todo. map_of d t = Some (int (N t + count_list todo t))"
    and "relax d q todo = Inr (d', q')"
  shows "q' = q @ filter (\<lambda>t. N t = 0) (remdups todo)"
  using assms
proof (induction todo arbitrary: d q)
  case Nil
  then show ?case by simp
next
  case (Cons n ns)
  let ?c = "int (N n + count_list ns n) + 1"
  let ?d1 = "AList.update n (?c - 1) d"
  let ?q1 = "if ?c - 1 = 0 then q @ [n] else q"
  from Cons.prems(1) have c: "map_of d n = Some ?c" by simp
  with Cons.prems(2) have step: "relax ?d1 ?q1 ns = Inr (d', q')" by simp
  have "\<forall>t\<in>set ns. map_of ?d1 t = Some (int (N t + count_list ns t))"
    using Cons.prems(1) by (simp add: map_of_update_other)
  from Cons.IH [OF this step] have q': "q' = ?q1 @ filter (\<lambda>t. N t = 0) (remdups ns)" .
  show ?case
  proof (cases "n \<in> set ns")
    case True
    then have "count_list ns n \<noteq> 0" by (simp add: count_list_0_iff)
    with True q' show ?thesis by simp
  next
    case False
    then have "count_list ns n = 0" by (simp add: count_list_0_iff)
    with False q' show ?thesis by simp
  qed
qed

lemma kahn_inv:
  assumes "\<forall>s\<in>set K. map_of g s = Some (succs E s)"
    and "\<forall>e\<in>set E. target e \<in> set K"
    and "map fst d = K"
    and "\<forall>t\<in>set K. map_of d t = Some (int (pending E order t))"
    and "distinct (order @ q)" and "set (order @ q) \<subseteq> set K"
    and "\<forall>t\<in>set K. t \<in> set (order @ q) \<longleftrightarrow> pending E order t = 0"
    and "preds_first E order"
    and "order @ q = R @ concat (map (\<lambda>i. frees E (take i order) (order ! i)) [0..<length order])"
  shows "\<exists>res zs. kahn_loop g d q order = Inr res \<and> res = order @ q @ zs \<and>
           distinct res \<and> set res \<subseteq> set K \<and>
           (\<forall>t\<in>set K. t \<in> set res \<longleftrightarrow> pending E res t = 0) \<and> preds_first E res \<and>
           res = R @ concat (map (\<lambda>i. frees E (take i res) (res ! i)) [0..<length res])"
  using assms
proof (induction g d q order rule: kahn_loop.induct)
  case (1 g d q order)
  show ?case
  proof (cases q)
    case Nil
    with "1.prems" show ?thesis
      by (simp add: kahn_loop.simps)
  next
    case (Cons c rest)
    from "1.prems" Cons have cK: "c \<in> set K" and c_new: "c \<notin> set order" by auto
    from cK "1.prems"(1) have gc: "map_of g c = Some (succs E c)" by simp
    let ?o = "order @ [c]"
    have todo: "set (succs E c) \<subseteq> set K"
      using "1.prems"(2) by (auto simp: succs_def)
    have v: "\<forall>t\<in>set K. map_of d t = Some (int (pending E ?o t + count_list (succs E c) t))"
      using "1.prems"(4) pending_split [OF c_new, of E] by simp
    have dd: "distinct (?o @ rest)" and ss: "set (?o @ rest) \<subseteq> set K"
      using "1.prems"(5,6) Cons by auto
    have mm: "\<forall>t\<in>set K. t \<in> set (?o @ rest) \<longleftrightarrow> pending E ?o t + count_list (succs E c) t = 0"
      using "1.prems"(7) pending_split [OF c_new, of E] Cons by simp
    from relax_inv [OF "1.prems"(3) todo v dd ss mm]
    obtain d' add where r: "relax d rest (succs E c) = Inr (d', rest @ add)" "map fst d' = K"
        "\<forall>t\<in>set K. map_of d' t = Some (int (pending E ?o t))"
        "distinct (?o @ rest @ add)" "set (?o @ rest @ add) \<subseteq> set K"
        "\<forall>t\<in>set K. t \<in> set (?o @ rest @ add) \<longleftrightarrow> pending E ?o t = 0"
      by blast
    have pc: "pending E order c = 0"
      using "1.prems"(7) cK Cons by auto
    have pf: "preds_first E ?o"
      unfolding preds_first_def
    proof (intro allI impI ballI)
      fix j e assume j: "j < length ?o" and e: "e \<in> set E" "target e = ?o ! j"
      show "source e \<in> set (take j ?o)"
      proof (cases "j < length order")
        case True
        with e "1.prems"(8) show ?thesis
          by (auto simp: preds_first_def nth_append)
      next
        case False
        with j have "j = length order" by simp
        with e pc show ?thesis by (auto simp: pending_zero)
      qed
    qed
    have "\<forall>t\<in>set (succs E c). map_of d t = Some (int (pending E ?o t + count_list (succs E c) t))"
      using v todo by auto
    from relax_queue [OF this r(1)] have add: "add = frees E order c"
      by (simp add: frees_def)
    have old: "map (\<lambda>i. frees E (take i ?o) (?o ! i)) [0..<length order]
                 = map (\<lambda>i. frees E (take i order) (order ! i)) [0..<length order]"
      by (intro map_cong) (auto simp: nth_append)
    have hist: "?o @ rest @ add
                  = R @ concat (map (\<lambda>i. frees E (take i ?o) (?o ! i)) [0..<length ?o])"
    proof -
      have "?o @ rest @ add = (order @ q) @ add"
        using Cons by simp
      also have "\<dots> = R @ concat (map (\<lambda>i. frees E (take i order) (order ! i)) [0..<length order])
                          @ frees E order c"
        using "1.prems"(9) add by simp
      also have "\<dots> = R @ concat (map (\<lambda>i. frees E (take i ?o) (?o ! i)) [0..<length ?o])"
        unfolding old [symmetric] by simp
      finally show ?thesis .
    qed
    from "1.IH" [OF Cons gc r(1) refl "1.prems"(1,2) r(2,3,4,5,6) pf hist]
    obtain res zs where k: "kahn_loop g d' (rest @ add) ?o = Inr res" "res = ?o @ (rest @ add) @ zs"
        "distinct res" "set res \<subseteq> set K"
        "\<forall>t\<in>set K. t \<in> set res \<longleftrightarrow> pending E res t = 0" "preds_first E res"
        "res = R @ concat (map (\<lambda>i. frees E (take i res) (res ! i)) [0..<length res])"
      by blast
    have "kahn_loop g d q order = Inr res"
      using Cons gc r(1) k(1) by (subst kahn_loop.simps) simp
    moreover have "res = order @ q @ (add @ zs)"
      using k(2) Cons by simp
    ultimately show ?thesis
      using k(3-7) by blast
  qed
qed

lemma update_const_keys:
  "AList.update k v (map (\<lambda>k. (k, v)) K) = map (\<lambda>k. (k, v)) (if k \<in> set K then K else K @ [k])"
  by (induction K) auto

lemma init_nodes_spec:
  "\<exists>K. init_nodes ns (map (\<lambda>k. (k, [])) K0) (map (\<lambda>k. (k, 0)) K0)
          = (map (\<lambda>k. (k, [])) K, map (\<lambda>k. (k, 0)) K) \<and>
        set K = set K0 \<union> node_id ` set ns \<and> (distinct K0 \<longrightarrow> distinct K) \<and>
        (distinct (K0 @ map node_id ns) \<longrightarrow> K = K0 @ map node_id ns)"
proof (induction ns arbitrary: K0)
  case Nil
  show ?case by (intro exI [of _ K0]) simp
next
  case (Cons n ns)
  let ?K1 = "if node_id n \<in> set K0 then K0 else K0 @ [node_id n]"
  from Cons.IH [of ?K1] obtain K where
    K: "init_nodes ns (map (\<lambda>k. (k, [])) ?K1) (map (\<lambda>k. (k, 0)) ?K1)
          = (map (\<lambda>k. (k, [])) K, map (\<lambda>k. (k, 0)) K)"
      "set K = set ?K1 \<union> node_id ` set ns" "distinct ?K1 \<longrightarrow> distinct K"
      "distinct (?K1 @ map node_id ns) \<longrightarrow> K = ?K1 @ map node_id ns"
    by blast
  have "init_nodes (n # ns) (map (\<lambda>k. (k, [])) K0) (map (\<lambda>k. (k, 0)) K0)
          = (map (\<lambda>k. (k, [])) K, map (\<lambda>k. (k, 0)) K)"
    using K(1) by (simp only: init_nodes.simps update_const_keys)
  moreover have "set K = set K0 \<union> node_id ` set (n # ns)"
    using K(2) by auto
  moreover have "distinct K0 \<longrightarrow> distinct K"
    using K(3) by auto
  moreover have "distinct (K0 @ map node_id (n # ns)) \<longrightarrow> K = K0 @ map node_id (n # ns)"
    using K(4) by auto
  ultimately show ?case by blast
qed

lemma add_edges_spec:
  assumes "map fst g = K" "map fst d = K"
    and "\<forall>e\<in>set es. source e \<in> set K \<longrightarrow> target e \<in> set K"
    and "\<forall>s\<in>set K. map_of g s = Some (gs s)" "\<forall>t\<in>set K. map_of d t = Some (ds t)"
  shows "\<exists>g' d'. add_edges es g d = Inr (g', d') \<and> map fst g' = K \<and> map fst d' = K \<and>
           (\<forall>s\<in>set K. map_of g' s = Some (gs s @ succs es s)) \<and>
           (\<forall>t\<in>set K. map_of d' t = Some (ds t + int (length (filter (\<lambda>e. target e = t \<and> source e \<in> set K) es))))"
  using assms
proof (induction es arbitrary: g d gs ds)
  case Nil
  then show ?case by (simp add: succs_def)
next
  case (Cons e es)
  show ?case
  proof (cases "source e \<in> set K")
    case False
    with Cons.prems(1) have "map_of g (source e) = None"
      by (metis map_of_eq_None_iff set_map)
    then have step: "add_edges (e # es) g d = add_edges es g d" by simp
    from Cons.prems(3) have "\<forall>e\<in>set es. source e \<in> set K \<longrightarrow> target e \<in> set K" by simp
    from Cons.IH [OF Cons.prems(1,2) this Cons.prems(4,5)] False step show ?thesis
      by (auto simp: succs_def)
  next
    case True
    with Cons.prems have tK: "target e \<in> set K" by simp
    let ?g1 = "AList.update (source e) (gs (source e) @ [target e]) g"
    let ?d1 = "AList.update (target e) (ds (target e) + 1) d"
    let ?gs1 = "\<lambda>s. if s = source e then gs s @ [target e] else gs s"
    let ?ds1 = "\<lambda>t. if t = target e then ds t + 1 else ds t"
    have step: "add_edges (e # es) g d = add_edges es ?g1 ?d1"
      using True tK Cons.prems(4,5) by simp
    have k: "map fst ?g1 = K" "map fst ?d1 = K"
      using True tK Cons.prems(1,2) by (simp_all add: keys_update_present)
    have v: "\<forall>s\<in>set K. map_of ?g1 s = Some (?gs1 s)" "\<forall>t\<in>set K. map_of ?d1 t = Some (?ds1 t)"
      using Cons.prems(4,5) by (simp_all add: map_of_update_other)
    from Cons.prems(3) have "\<forall>e\<in>set es. source e \<in> set K \<longrightarrow> target e \<in> set K" by simp
    from Cons.IH [OF k this v] obtain g' d' where
      r: "add_edges es ?g1 ?d1 = Inr (g', d')" "map fst g' = K" "map fst d' = K"
        "\<forall>s\<in>set K. map_of g' s = Some (?gs1 s @ succs es s)"
        "\<forall>t\<in>set K. map_of d' t = Some (?ds1 t + int (length (filter (\<lambda>e. target e = t \<and> source e \<in> set K) es)))"
      by blast
    have "\<forall>s\<in>set K. map_of g' s = Some (gs s @ succs (e # es) s)"
      using r(4) by (auto simp: succs_def)
    moreover have "\<forall>t\<in>set K. map_of d' t = Some (ds t + int (length (filter (\<lambda>e. target e = t \<and> source e \<in> set K) (e # es))))"
      using r(5) True by auto
    ultimately show ?thesis
      using step r(1,2,3) by simp
  qed
qed

lemma add_edges_valid:
  assumes "map fst g = K" "map fst d = K" "add_edges es g d = Inr r"
  shows "\<forall>e\<in>set es. source e \<in> set K \<longrightarrow> target e \<in> set K"
  using assms
proof (induction es arbitrary: g d)
  case Nil
  then show ?case by simp
next
  case (Cons e es)
  show ?case
  proof (cases "map_of g (source e)")
    case None
    with Cons.prems(1) have "source e \<notin> set K"
      by (metis map_of_eq_None_iff set_map)
    moreover from None Cons.prems(3) have "add_edges es g d = Inr r" by simp
    ultimately show ?thesis
      using Cons.IH [OF Cons.prems(1,2)] by simp
  next
    case (Some ts)
    with Cons.prems(3) obtain c where c: "map_of d (target e) = Some c"
      by (auto split: option.splits)
    with Cons.prems(2) have tK: "target e \<in> set K"
      by (metis map_of_eq_None_iff option.distinct(1) set_map)
    from Some Cons.prems(1) have sK: "source e \<in> set K"
      by (metis map_of_eq_None_iff option.distinct(1) set_map)
    have k: "map fst (AList.update (source e) (ts @ [target e]) g) = K"
      "map fst (AList.update (target e) (c + 1) d) = K"
      using sK tK Cons.prems(1,2) by (simp_all add: keys_update_present)
    from Some c Cons.prems(3)
    have "add_edges es (AList.update (source e) (ts @ [target e]) g)
            (AList.update (target e) (c + 1) d) = Inr r" by simp
    from Cons.IH [OF k this] tK show ?thesis by simp
  qed
qed

lemma map_of_const: "map_of (map (\<lambda>k. (k, v)) K) s = (if s \<in> set K then Some v else None)"
  by (induction K) auto

lemma seed_queue:
  "distinct (map fst d) \<Longrightarrow>
   map fst (filter (\<lambda>p. snd p = (0::int)) d) = filter (\<lambda>t. map_of d t = Some 0) (map fst d)"
proof (induction d)
  case Nil
  then show ?case by simp
next
  case (Cons p d)
  obtain k v where p: "p = (k, v)" by (cases p)
  from Cons.prems p have k: "k \<notin> set (map fst d)" and dd: "distinct (map fst d)" by simp_all
  have "filter (\<lambda>t. map_of (p # d) t = Some 0) (map fst d) = filter (\<lambda>t. map_of d t = Some 0) (map fst d)"
    using k p by (intro filter_cong) auto
  then show ?case
    using Cons.IH [OF dd] p by simp
qed

lemma build_sound:
  assumes valid: "\<forall>e\<in>set edges. source e \<in> node_id ` set nodes \<longrightarrow> target e \<in> node_id ` set nodes"
  defines "E \<equiv> filter (\<lambda>e. source e \<in> node_id ` set nodes) edges"
  shows "\<exists>K res zs. distinct K \<and> set K = node_id ` set nodes \<and>
           (distinct (map node_id nodes) \<longrightarrow> K = map node_id nodes) \<and>
           build_execution_graph nodes edges =
             (if length res \<noteq> length nodes then Inl (ValueError cycle_message) else Inr res) \<and>
           res = filter (\<lambda>t. pending E [] t = 0) K @ zs \<and>
           distinct res \<and> set res \<subseteq> set K \<and>
           (\<forall>t\<in>set K. t \<in> set res \<longleftrightarrow> pending E res t = 0) \<and> preds_first E res \<and>
           res = filter (\<lambda>t. pending E [] t = 0) K
                   @ concat (map (\<lambda>i. frees E (take i res) (res ! i)) [0..<length res])"
proof -
  from init_nodes_spec [of nodes "[]"] obtain K where
    K: "init_nodes nodes [] [] = (map (\<lambda>k. (k, [])) K, map (\<lambda>k. (k, 0)) K)"
      "set K = node_id ` set nodes" "distinct K"
      "distinct (map node_id nodes) \<longrightarrow> K = map node_id nodes"
    by auto
  let ?g0 = "map (\<lambda>k. (k, [])) K :: string list dict" and ?d0 = "map (\<lambda>k. (k, 0)) K :: int dict"
  have k0: "map fst ?g0 = K" "map fst ?d0 = K"
    by (simp_all add: comp_def)
  have v0: "\<forall>s\<in>set K. map_of ?g0 s = Some ((\<lambda>_. []) s)" "\<forall>t\<in>set K. map_of ?d0 t = Some ((\<lambda>_. 0) t)"
    by (simp_all add: map_of_const)
  from valid K(2) have valid': "\<forall>e\<in>set edges. source e \<in> set K \<longrightarrow> target e \<in> set K"
    by simp
  from add_edges_spec [OF k0 valid' v0] obtain g d where
    gd: "add_edges edges ?g0 ?d0 = Inr (g, d)" "map fst g = K" "map fst d = K"
      "\<forall>s\<in>set K. map_of g s = Some ([] @ succs edges s)"
      "\<forall>t\<in>set K. map_of d t = Some (0 + int (length (filter (\<lambda>e. target e = t \<and> source e \<in> set K) edges)))"
    by blast
  have su: "\<forall>s\<in>set K. map_of g s = Some (succs E s)"
  proof
    fix s assume "s \<in> set K"
    moreover from this have "filter (\<lambda>e. source e = s) E = filter (\<lambda>e. source e = s) edges"
      unfolding E_def filter_filter using K(2) by (intro filter_cong) auto
    ultimately show "map_of g s = Some (succs E s)"
      using gd(4) by (simp add: succs_def)
  qed
  have pe: "\<forall>t\<in>set K. map_of d t = Some (int (pending E [] t))"
  proof
    fix t assume "t \<in> set K"
    moreover have "filter (\<lambda>e. target e = t) E = filter (\<lambda>e. target e = t \<and> source e \<in> set K) edges"
      unfolding E_def filter_filter using K(2) by (intro filter_cong) auto
    ultimately show "map_of d t = Some (int (pending E [] t))"
      using gd(5) by (simp add: pending_def)
  qed
  have tE: "\<forall>e\<in>set E. target e \<in> set K"
    using valid' K(2) by (auto simp: E_def)
  let ?q = "map fst (filter (\<lambda>p. snd p = 0) d)"
  have dk: "distinct (map fst d)" using gd(3) K(3) by simp
  have q: "?q = filter (\<lambda>t. pending E [] t = 0) K"
  proof -
    have "?q = filter (\<lambda>t. map_of d t = Some 0) K"
      using seed_queue [OF dk] gd(3) by simp
    also have "\<dots> = filter (\<lambda>t. pending E [] t = 0) K"
      using pe by (intro filter_cong) auto
    finally show ?thesis .
  qed
  have i1: "distinct ([] @ ?q)" "set ([] @ ?q) \<subseteq> set K"
    "\<forall>t\<in>set K. t \<in> set ([] @ ?q) \<longleftrightarrow> pending E [] t = 0"
    unfolding q using K(3) by auto
  have i2: "preds_first E []" by (simp add: preds_first_def)
  have i3: "[] @ ?q = ?q @ concat (map (\<lambda>i. frees E (take i []) ([] ! i)) [0..<length ([] :: string list)])"
    by simp
  from kahn_inv [OF su tE gd(3) pe i1 i2 i3] obtain res zs where
    r: "kahn_loop g d ?q [] = Inr res" "res = [] @ ?q @ zs" "distinct res" "set res \<subseteq> set K"
      "\<forall>t\<in>set K. t \<in> set res \<longleftrightarrow> pending E res t = 0" "preds_first E res"
      "res = ?q @ concat (map (\<lambda>i. frees E (take i res) (res ! i)) [0..<length res])"
    by blast
  have "build_execution_graph nodes edges =
          (if length res \<noteq> length nodes then Inl (ValueError cycle_message) else Inr res)"
    using K(1) gd(1) r(1) by (simp add: build_execution_graph_def)
  moreover have "res = filter (\<lambda>t. pending E [] t = 0) K @ zs"
    using r(2) q by simp
  moreover have "res = filter (\<lambda>t. pending E [] t = 0) K
                         @ concat (map (\<lambda>i. frees E (take i res) (res ! i)) [0..<length res])"
    using r(7) unfolding q .
  ultimately show ?thesis
    using K(2,3,4) r(3-6) by blast
qed

lemma add_edges_error: "add_edges es g d = Inl err \<Longrightarrow> \<exists>k. err = KeyError k"
  by (induction es g d rule: add_edges.induct) (auto split: option.splits)

lemma build_valid_or_KeyError:
  assumes "\<not> (\<forall>e\<in>set edges. source e \<in> node_id ` set nodes \<longrightarrow> target e \<in> node_id ` set nodes)"
  shows "\<exists>k. build_execution_graph nodes edges = Inl (KeyError k)"
proof -
  from init_nodes_spec [of nodes "[]"] obtain K where
    K: "init_nodes nodes [] [] = (map (\<lambda>k. (k, [])) K, map (\<lambda>k. (k, 0)) K)"
      "set K = node_id ` set nodes"
    by auto
  let ?g0 = "map (\<lambda>k. (k, [])) K :: string list dict" and ?d0 = "map (\<lambda>k. (k, 0)) K :: int dict"
  have k0: "map fst ?g0 = K" "map fst ?d0 = K"
    by (simp_all add: comp_def)
  have "\<exists>k. add_edges edges ?g0 ?d0 = Inl (KeyError k)"
  proof (cases "add_edges edges ?g0 ?d0")
    case (Inl err)
    with add_edges_error show ?thesis by blast
  next
    case (Inr r)
    from add_edges_valid [OF k0 Inr] assms K(2) show ?thesis by simp
  qed
  with K(1) show ?thesis
    by (auto simp: build_execution_graph_def)
qed

lemma preds_first_edges:
  assumes "preds_first E res" "e \<in> set E" "target e \<in> set res"
  shows "\<exists>i j. i < j \<and> j < length res \<and> res ! i = source e \<and> res ! j = target e"
proof -
  from assms(3) obtain j where j: "j < length res" "res ! j = target e"
    by (auto simp: in_set_conv_nth)
  with assms(1,2) have "source e \<in> set (take j res)"
    by (auto simp: preds_first_def)
  then obtain i where "i < length (take j res)" "take j res ! i = source e"
    by (auto simp: in_set_conv_nth)
  with j show ?thesis by auto
qed

lemma ordered_edges_acyclic:
  assumes "distinct res"
    and "\<forall>e\<in>set edges. \<exists>i j. i < j \<and> j < length res \<and> res ! i = source e \<and> res ! j = target e"
  shows "acyclic (edge_rel edges)"
proof -
  let ?f = "\<lambda>x. length (takeWhile (\<lambda>y. y \<noteq> x) res)"
  have idx: "?f (res ! j) = j" if "j < length res" for j
  proof -
    have "takeWhile (\<lambda>y. y \<noteq> res ! j) res = take j res"
      using that assms(1) by (intro takeWhile_eq_take_P_nth) (auto simp: nth_eq_iff_index_eq)
    with that show ?thesis by simp
  qed
  have "edge_rel edges \<subseteq> measure ?f"
  proof
    fix p assume "p \<in> edge_rel edges"
    then obtain e where e: "e \<in> set edges" "p = (source e, target e)"
      by (auto simp: edge_rel_def)
    with assms(2) obtain i j where "i < j" "j < length res" "res ! i = source e" "res ! j = target e"
      by blast
    with idx [of i] idx [of j] e show "p \<in> measure ?f" by auto
  qed
  then have "wf (edge_rel edges)"
    by (rule wf_subset [OF wf_measure])
  then show ?thesis by (rule wf_acyclic)
qed

text \<open>
  Claim C1. For nodes with unique ids, edges that all lead from a node to a node, and no
  directed cycle, \<^const>\<open>build_execution_graph\<close> returns an order that is a permutation
  of the node ids, as long as the node list, in which the source of every edge stands
  strictly before its target.
\<close>

theorem build_execution_graph_topological:
  assumes dist: "distinct (map node_id nodes)"
    and valid: "\<forall>e\<in>set edges. source e \<in> node_id ` set nodes \<and> target e \<in> node_id ` set nodes"
    and acyc: "acyclic (edge_rel edges)"
  shows "\<exists>order. build_execution_graph nodes edges = Inr order \<and>
           mset order = mset (map node_id nodes) \<and> length order = length nodes \<and>
           (\<forall>e\<in>set edges. \<exists>i j. i < j \<and> j < length order \<and>
                order ! i = source e \<and> order ! j = target e)"
proof -
  have E: "filter (\<lambda>e. source e \<in> node_id ` set nodes) edges = edges"
    using valid by (simp add: filter_id_conv)
  from valid have "\<forall>e\<in>set edges. source e \<in> node_id ` set nodes \<longrightarrow> target e \<in> node_id ` set nodes"
    by simp
  from build_sound [OF this, unfolded E] obtain K res and zs :: "string list" where
    K: "set K = node_id ` set nodes"
    and r0: "build_execution_graph nodes edges =
          (if length res \<noteq> length nodes then Inl (ValueError cycle_message) else Inr res)"
      "distinct res" "set res \<subseteq> set K"
      "\<forall>t\<in>set K. t \<in> set res \<longleftrightarrow> pending edges res t = 0"
      "preds_first edges res"
    by blast
  note r = r0 [unfolded K]
  have all: "node_id ` set nodes \<subseteq> set res"
  proof (rule ccontr)
    assume "\<not> node_id ` set nodes \<subseteq> set res"
    then obtain x where x: "x \<in> node_id ` set nodes - set res" by auto
    have "wf (edge_rel edges)"
      using acyc by (intro finite_acyclic_wf) (simp_all add: edge_rel_def)
    from wfE_min [OF this x] obtain z where
      z: "z \<in> node_id ` set nodes - set res"
        "\<And>y. (y, z) \<in> edge_rel edges \<Longrightarrow> y \<notin> node_id ` set nodes - set res"
      by blast
    with r(4) have "pending edges res z \<noteq> 0" by auto
    then obtain e where e: "e \<in> set edges" "target e = z" "source e \<notin> set res"
      by (auto simp: pending_zero)
    then have "(source e, z) \<in> edge_rel edges"
      by (auto simp: edge_rel_def)
    with z(2) e valid show False by auto
  qed
  with r(3) have eq: "set res = set (map node_id nodes)" by auto
  with set_eq_iff_mset_eq_distinct [OF r(2) dist] have m: "mset res = mset (map node_id nodes)"
    by blast
  then have len: "length res = length nodes"
    by (metis length_map size_mset)
  have "\<forall>e\<in>set edges. \<exists>i j. i < j \<and> j < length res \<and> res ! i = source e \<and> res ! j = target e"
    using preds_first_edges [OF r(5)] valid eq by auto
  with r(1) m len show ?thesis by auto
qed

theorem build_execution_graph_topological_witness:
  "distinct (map node_id [plain_node ''A'', plain_node ''B'', plain_node ''C'']) \<and>
   list_all (\<lambda>e. source e \<in> node_id ` set [plain_node ''A'', plain_node ''B'', plain_node ''C''] \<and>
                 target e \<in> node_id ` set [plain_node ''A'', plain_node ''B'', plain_node ''C''])
     [link ''A'' ''C'', link ''C'' ''B''] \<and>
   acyclic (edge_rel [link ''A'' ''C'', link ''C'' ''B'']) \<and>
   (\<exists>order. build_execution_graph [plain_node ''A'', plain_node ''B'', plain_node ''C'']
               [link ''A'' ''C'', link ''C'' ''B''] = Inr order \<and>
      mset order = mset (map node_id [plain_node ''A'', plain_node ''B'', plain_node ''C'']) \<and>
      length order = length [plain_node ''A'', plain_node ''B'', plain_node ''C''] \<and>
      (\<forall>e\<in>set [link ''A'' ''C'', link ''C'' ''B''].
         \<exists>i j. i < j \<and> j < length order \<and> order ! i = source e \<and> order ! j = target e))"
proof -
  let ?ns = "[plain_node ''A'', plain_node ''B'', plain_node ''C'']"
  let ?es = "[link ''A'' ''C'', link ''C'' ''B'']"
  have h1: "distinct (map node_id ?ns)"
    by (simp add: plain_node_def)
  have h2: "\<forall>e\<in>set ?es. source e \<in> node_id ` set ?ns \<and> target e \<in> node_id ` set ?ns"
    by (simp add: plain_node_def link_def)
  have "acyclic ({} :: (string \<times> string) set)"
    by (simp add: acyclic_def)
  then have h3: "acyclic (edge_rel ?es)"
    by (simp add: edge_rel_def link_def rtrancl_insert)
  from build_execution_graph_topological [OF h1 h2 h3] h1 h2 h3 show ?thesis
    unfolding list_all_iff by blast
qed

text \<open>
  Claim C2. For nodes with unique ids and edges that all lead from a node to a node, a
  directed cycle makes \<^const>\<open>build_execution_graph\<close> fail with the cycle error; the
  two nodes A and B with the edges from A to B and from B to A are the instance below.
\<close>

theorem build_execution_graph_cycle:
  assumes dist: "distinct (map node_id nodes)"
    and valid: "\<forall>e\<in>set edges. source e \<in> node_id ` set nodes \<and> target e \<in> node_id ` set nodes"
    and cyc: "\<not> acyclic (edge_rel edges)"
  shows "build_execution_graph nodes edges = Inl (ValueError cycle_message)"
proof -
  have E: "filter (\<lambda>e. source e \<in> node_id ` set nodes) edges = edges"
    using valid by (simp add: filter_id_conv)
  from valid have "\<forall>e\<in>set edges. source e \<in> node_id ` set nodes \<longrightarrow> target e \<in> node_id ` set nodes"
    by simp
  from build_sound [OF this, unfolded E] obtain K res and zs :: "string list" where
    K: "set K = node_id ` set nodes"
    and r0: "build_execution_graph nodes edges =
          (if length res \<noteq> length nodes then Inl (ValueError cycle_message) else Inr res)"
      "distinct res" "set res \<subseteq> set K" "preds_first edges res"
    by blast
  note r = r0 [unfolded K]
  have "length res \<noteq> length nodes"
  proof
    assume len: "length res = length nodes"
    have "card (node_id ` set nodes) \<le> length nodes"
      by (metis card_length length_map set_map)
    with len r(2) have "card (node_id ` set nodes) \<le> card (set res)"
      by (simp add: distinct_card)
    with r(3) have "set res = node_id ` set nodes"
      by (intro card_seteq) auto
    with preds_first_edges [OF r(4)] valid
    have "\<forall>e\<in>set edges. \<exists>i j. i < j \<and> j < length res \<and> res ! i = source e \<and> res ! j = target e"
      by auto
    from ordered_edges_acyclic [OF r(2) this] cyc show False by simp
  qed
  with r(1) show ?thesis by simp
qed

theorem build_execution_graph_cycle_witness:
  "distinct (map node_id [plain_node ''A'', plain_node ''B'']) \<and>
   list_all (\<lambda>e. source e \<in> node_id ` set [plain_node ''A'', plain_node ''B''] \<and>
                 target e \<in> node_id ` set [plain_node ''A'', plain_node ''B''])
     [link ''A'' ''B'', link ''B'' ''A''] \<and>
   \<not> acyclic (edge_rel [link ''A'' ''B'', link ''B'' ''A'']) \<and>
   build_execution_graph [plain_node ''A'', plain_node ''B''] [link ''A'' ''B'', link ''B'' ''A'']
     = Inl (ValueError cycle_message)"
proof -
  let ?ns = "[plain_node ''A'', plain_node ''B'']"
  let ?es = "[link ''A'' ''B'', link ''B'' ''A'']"
  have h1: "distinct (map node_id ?ns)"
    by (simp add: plain_node_def)
  have h2: "\<forall>e\<in>set ?es. source e \<in> node_id ` set ?ns \<and> target e \<in> node_id ` set ?ns"
    by (simp add: plain_node_def link_def)
  have h3: "\<not> acyclic (edge_rel ?es)"
    by (simp add: edge_rel_def link_def rtrancl_insert)
  from build_execution_graph_cycle [OF h1 h2 h3] h1 h2 h3 show ?thesis
    unfolding list_all_iff by blast
qed

text \<open>
  Claim C5, as the code has it. With two nodes of the same id the dictionaries hold fewer
  keys than the node list has elements, so the length check fails: the error is the
  \<^verbatim>\<open>ValueError\<close> of the cycle check itself, and there is no duplicate-id error. (When
  an edge leaves a node and targets no node, the \<^verbatim>\<open>KeyError\<close> of the second loop comes
  first.)
\<close>

theorem build_execution_graph_duplicate_ids:
  assumes dup: "\<not> distinct (map node_id nodes)"
  shows "if \<forall>e\<in>set edges. source e \<in> node_id ` set nodes \<longrightarrow> target e \<in> node_id ` set nodes
         then build_execution_graph nodes edges = Inl (ValueError cycle_message)
         else \<exists>k. build_execution_graph nodes edges = Inl (KeyError k)"
proof (cases "\<forall>e\<in>set edges. source e \<in> node_id ` set nodes \<longrightarrow> target e \<in> node_id ` set nodes")
  case True
  from build_sound [OF True] obtain K res and zs :: "string list" where
    K: "set K = node_id ` set nodes"
    and r0: "build_execution_graph nodes edges =
          (if length res \<noteq> length nodes then Inl (ValueError cycle_message) else Inr res)"
      "distinct res" "set res \<subseteq> set K"
    by blast
  note r = r0 [unfolded K]
  have "length res = card (set res)"
    using r(2) by (simp add: distinct_card)
  also have "\<dots> \<le> card (set (map node_id nodes))"
    using r(3) by (intro card_mono) auto
  also have "\<dots> < length (map node_id nodes)"
    using dup card_distinct [of "map node_id nodes"] card_length [of "map node_id nodes"]
    by (cases "card (set (map node_id nodes)) = length (map node_id nodes)") auto
  finally have "length res \<noteq> length nodes" by simp
  with r(1) True show ?thesis by simp
next
  case False
  from build_valid_or_KeyError [OF False] show ?thesis
    by (simp only: False if_False)
qed

theorem build_execution_graph_duplicate_ids_witness:
  "\<not> distinct (map node_id [plain_node ''A'', plain_node ''B'', plain_node ''A'']) \<and>
   list_all (\<lambda>e. source e \<in> node_id ` set [plain_node ''A'', plain_node ''B'', plain_node ''A'']
                 \<longrightarrow> target e \<in> node_id ` set [plain_node ''A'', plain_node ''B'', plain_node ''A''])
     [link ''A'' ''B''] \<and>
   build_execution_graph [plain_node ''A'', plain_node ''B'', plain_node ''A''] [link ''A'' ''B'']
     = Inl (ValueError cycle_message)"
proof -
  let ?ns = "[plain_node ''A'', plain_node ''B'', plain_node ''A'']"
  have h1: "\<not> distinct (map node_id ?ns)"
    by (simp add: plain_node_def)
  have h2: "\<forall>e\<in>set [link ''A'' ''B'']. source e \<in> node_id ` set ?ns \<longrightarrow> target e \<in> node_id ` set ?ns"
    by (simp add: plain_node_def link_def)
  from build_execution_graph_duplicate_ids [OF h1, of "[link ''A'' ''B'']"] h1 h2 show ?thesis
    unfolding list_all_iff by (simp only: if_True simp_thms)
qed

text \<open>The duplicate input and the cyclic input fail with one and the same error.\<close>

theorem build_execution_graph_duplicate_ids_counterexample:
  "build_execution_graph [plain_node ''A'', plain_node ''A''] [] = Inl (ValueError cycle_message) \<and>
   build_execution_graph [plain_node ''A'', plain_node ''B''] [link ''A'' ''B'', link ''B'' ''A'']
     = Inl (ValueError cycle_message)"
  by (simp add: build_execution_graph_def plain_node_def link_def kahn_loop.simps)

lemma frees_released:
  assumes "c \<in> node_id ` set nodes"
  shows "frees (filter (\<lambda>e. source e \<in> node_id ` set nodes) edges) emitted c
           = released nodes edges emitted c"
proof -
  let ?E = "filter (\<lambda>e. source e \<in> node_id ` set nodes) edges"
  have "filter (\<lambda>e. source e = c) ?E = filter (\<lambda>e. source e = c) edges"
    unfolding filter_filter using assms by (intro filter_cong) auto
  then have s: "succs ?E c = map target (filter (\<lambda>e. source e = c) edges)"
    by (simp add: succs_def)
  show ?thesis
    unfolding frees_def released_def s
    by (intro filter_cong) (auto simp: pending_zero)
qed

text \<open>
  Claim C9, as the code has it. The order is a function of the node and edge lists, so the
  same input gives the same order. It starts with the nodes of in-degree zero in the
  order of the node list. The queue is first in, first out: after them come, for each
  emitted node in turn, the nodes that its emission releases, in the order of its
  outgoing edges in the edge list, which need not be the order of the node list. The
  equation determines the order element by element.
\<close>

theorem build_execution_graph_fifo:
  assumes "build_execution_graph nodes edges = Inr order"
  shows "order = roots nodes edges
                   @ concat (map (\<lambda>i. released nodes edges (take i order) (order ! i))
                               [0..<length order])"
proof -
  have valid: "\<forall>e\<in>set edges. source e \<in> node_id ` set nodes \<longrightarrow> target e \<in> node_id ` set nodes"
    using build_valid_or_KeyError [of edges nodes] assms by auto
  let ?E = "filter (\<lambda>e. source e \<in> node_id ` set nodes) edges"
  from build_sound [OF valid] obtain K res and zs :: "string list" where
    r: "distinct (map node_id nodes) \<longrightarrow> K = map node_id nodes"
      "build_execution_graph nodes edges =
          (if length res \<noteq> length nodes then Inl (ValueError cycle_message) else Inr res)"
      "distinct res" "set res \<subseteq> set K" "set K = node_id ` set nodes"
      "res = filter (\<lambda>t. pending ?E [] t = 0) K
               @ concat (map (\<lambda>i. frees ?E (take i res) (res ! i)) [0..<length res])"
    by blast
  from r(2) assms have res: "res = order" and len: "length res = length nodes"
    by (auto split: if_splits)
  have "distinct (map node_id nodes)"
  proof (rule card_distinct)
    have "length (map node_id nodes) = card (set res)"
      using len r(3) by (simp add: distinct_card)
    also have "\<dots> \<le> card (set (map node_id nodes))"
      using r(4,5) by (intro card_mono) auto
    finally show "card (set (map node_id nodes)) = length (map node_id nodes)"
      using card_length [of "map node_id nodes"] by simp
  qed
  with r(1) have K: "K = map node_id nodes" by simp
  have seed: "filter (\<lambda>t. pending ?E [] t = 0) K = roots nodes edges"
    unfolding K roots_def by (intro filter_cong) (auto simp: pending_zero)
  have rel: "map (\<lambda>i. frees ?E (take i res) (res ! i)) [0..<length res]
               = map (\<lambda>i. released nodes edges (take i res) (res ! i)) [0..<length res]"
  proof (intro map_cong refl)
    fix i assume "i \<in> set [0..<length res]"
    then have "res ! i \<in> set res" by simp
    with r(4,5) have "res ! i \<in> node_id ` set nodes" by auto
    then show "frees ?E (take i res) (res ! i) = released nodes edges (take i res) (res ! i)"
      by (rule frees_released)
  qed
  from r(6) have "res = roots nodes edges
                          @ concat (map (\<lambda>i. released nodes edges (take i res) (res ! i))
                                      [0..<length res])"
    unfolding seed rel .
  then show ?thesis
    unfolding res .
qed

theorem build_execution_graph_fifo_witness:
  "build_execution_graph [plain_node ''X'', plain_node ''C'', plain_node ''B'']
     [link ''X'' ''B'', link ''X'' ''C''] = Inr [''X'', ''B'', ''C''] \<and>
   roots [plain_node ''X'', plain_node ''C'', plain_node ''B''] [link ''X'' ''B'', link ''X'' ''C'']
     = [''X''] \<and>
   released [plain_node ''X'', plain_node ''C'', plain_node ''B''] [link ''X'' ''B'', link ''X'' ''C'']
     [] ''X'' = [''B'', ''C''] \<and>
   [''X'', ''B'', ''C''] =
     roots [plain_node ''X'', plain_node ''C'', plain_node ''B''] [link ''X'' ''B'', link ''X'' ''C'']
     @ concat (map (\<lambda>i. released [plain_node ''X'', plain_node ''C'', plain_node ''B'']
                          [link ''X'' ''B'', link ''X'' ''C'']
                          (take i [''X'', ''B'', ''C'']) ([''X'', ''B'', ''C''] ! i))
                 [0..<length [''X'', ''B'', ''C'']]) \<and>
   build_execution_graph [plain_node ''A'', plain_node ''B''] [] = Inr [''A'', ''B'']"
proof -
  let ?ns = "[plain_node ''X'', plain_node ''C'', plain_node ''B'']"
  let ?es = "[link ''X'' ''B'', link ''X'' ''C'']"
  have h: "build_execution_graph ?ns ?es = Inr [''X'', ''B'', ''C'']"
    by (simp add: build_execution_graph_def plain_node_def link_def kahn_loop.simps)
  have ro: "roots ?ns ?es = [''X'']"
    by (simp add: roots_def plain_node_def link_def)
  have re: "released ?ns ?es [] ''X'' = [''B'', ''C'']"
    by (simp add: released_def plain_node_def link_def)
  have ab: "build_execution_graph [plain_node ''A'', plain_node ''B''] [] = Inr [''A'', ''B'']"
    by (simp add: build_execution_graph_def plain_node_def kahn_loop.simps)
  from h ro re build_execution_graph_fifo [OF h] ab show ?thesis
    by - (intro conjI, assumption+)
qed

text \<open>
  After X both B and C have in-degree zero, and C stands before B in the node list; B is
  emitted first, as the edge to B stands first in the edge list.
\<close>

theorem build_execution_graph_fifo_counterexample:
  "map node_id [plain_node ''X'', plain_node ''C'', plain_node ''B''] = [''X'', ''C'', ''B''] \<and>
   build_execution_graph [plain_node ''X'', plain_node ''C'', plain_node ''B'']
     [link ''X'' ''B'', link ''X'' ''C''] = Inr [''X'', ''B'', ''C'']"
  by (simp add: build_execution_graph_def plain_node_def link_def kahn_loop.simps)

section \<open>Running the nodes\<close>

text \<open>No handler touches the stored outputs: only the loop of the run writes them.\<close>

lemma log_outputs [simp]: "node_outputs (log m l st) = node_outputs st"
  by (simp add: log_def)

lemma external_outputs: "external call st = (r, st') \<Longrightarrow> node_outputs st' = node_outputs st"
  by (auto simp: external_def split: prod.splits)

lemma asyncio_sleep_outputs: "asyncio_sleep env v st = (r, st') \<Longrightarrow> node_outputs st' = node_outputs st"
  unfolding asyncio_sleep_def
  by (auto split: option.splits bool.splits dest: external_outputs)

lemma execute_http_request_outputs:
  "execute_http_request env config st = (r, st') \<Longrightarrow> node_outputs st' = node_outputs st"
  unfolding execute_http_request_def Let_def
  by (auto split: sum.splits pyval.splits if_splits prod.splits dest: external_outputs)

lemma execute_transform_outputs:
  "execute_transform input_data config st = (r, st') \<Longrightarrow> node_outputs st' = node_outputs st"
  unfolding execute_transform_def Let_def
  by (auto split: sum.splits if_splits)

lemma file_operation_body_outputs:
  "file_operation_body env operation file_path content st = (r, st') \<Longrightarrow> node_outputs st' = node_outputs st"
  unfolding file_operation_body_def
  by (auto split: sum.splits if_splits prod.splits dest: external_outputs)

lemma execute_file_operation_outputs:
  "execute_file_operation env config st = (r, st') \<Longrightarrow> node_outputs st' = node_outputs st"
  unfolding execute_file_operation_def Let_def
  by (auto split: sum.splits if_splits prod.splits dest: file_operation_body_outputs)

lemma database_operation_body_outputs:
  "database_operation_body env operation path query params st = (r, st') \<Longrightarrow> node_outputs st' = node_outputs st"
  unfolding database_operation_body_def
  by (auto simp: external_def split: sum.splits if_splits prod.splits)

lemma execute_database_operation_outputs:
  "execute_database_operation env config st = (r, st') \<Longrightarrow> node_outputs st' = node_outputs st"
  unfolding execute_database_operation_def Let_def
  by (auto split: sum.splits if_splits prod.splits dest: database_operation_body_outputs)

lemma execute_condition_outputs:
  "execute_condition env input_data config st = (r, st') \<Longrightarrow> node_outputs st' = node_outputs st"
  unfolding execute_condition_def Let_def
  by (auto split: sum.splits if_splits)

lemma execute_delay_outputs:
  "execute_delay env config st = (r, st') \<Longrightarrow> node_outputs st' = node_outputs st"
  unfolding execute_delay_def Let_def
  by (auto split: sum.splits if_splits prod.splits dest: asyncio_sleep_outputs)

lemma execute_action_outputs:
  "execute_action env node_config input_data st = (r, st') \<Longrightarrow> node_outputs st' = node_outputs st"
  unfolding execute_action_def Let_def
  by (auto split: sum.splits if_splits
      dest: execute_http_request_outputs execute_transform_outputs execute_file_operation_outputs
        execute_database_operation_outputs execute_condition_outputs execute_delay_outputs)

lemma execute_node_body_outputs:
  "execute_node_body env node node_config input_data st = (r, st') \<Longrightarrow> node_outputs st' = node_outputs st"
  unfolding execute_node_body_def Let_def
  by (auto split: sum.splits if_splits prod.splits dest: execute_action_outputs external_outputs)

lemma execute_node_outputs:
  "execute_node env node input_data st = (r, st') \<Longrightarrow> node_outputs st' = node_outputs st"
  unfolding execute_node_def Let_def
  by (auto split: sum.splits prod.splits dest: execute_node_body_outputs)

text \<open>What a returned order tells about the graph.\<close>

lemma build_Inr_facts:
  assumes "build_execution_graph nodes edges = Inr order"
  shows "distinct (map node_id nodes)" "distinct order" "set order = node_id ` set nodes"
    "preds_first (filter (\<lambda>e. source e \<in> node_id ` set nodes) edges) order"
proof -
  have valid: "\<forall>e\<in>set edges. source e \<in> node_id ` set nodes \<longrightarrow> target e \<in> node_id ` set nodes"
    using build_valid_or_KeyError [of edges nodes] assms by auto
  let ?E = "filter (\<lambda>e. source e \<in> node_id ` set nodes) edges"
  from build_sound [OF valid] obtain K res and zs :: "string list" where
    r: "build_execution_graph nodes edges =
          (if length res \<noteq> length nodes then Inl (ValueError cycle_message) else Inr res)"
      "distinct res" "set res \<subseteq> set K" "set K = node_id ` set nodes" "preds_first ?E res"
    by blast
  from r(1) assms have res: "res = order" and len: "length res = length nodes"
    by (auto split: if_splits)
  have c: "card (set (map node_id nodes)) = length (map node_id nodes)"
  proof -
    have "length (map node_id nodes) = card (set res)"
      using len r(2) by (simp add: distinct_card)
    also have "\<dots> \<le> card (set (map node_id nodes))"
      using r(3,4) by (intro card_mono) auto
    finally show ?thesis
      using card_length [of "map node_id nodes"] by simp
  qed
  then show "distinct (map node_id nodes)" by (rule card_distinct)
  show "distinct order" using r(2) res by simp
  show "preds_first ?E order" using r(5) res by simp
  have "card (set res) = card (node_id ` set nodes)"
    using c len r(2) by (simp add: distinct_card)
  with r(3,4) have "set res = node_id ` set nodes"
    by (intro card_subset_eq) auto
  with res show "set order = node_id ` set nodes" by simp
qed

lemma update_fresh: "k \<notin> fst ` set al \<Longrightarrow> AList.update k v al = al @ [(k, v)]"
  by (induction al) auto

lemma run_nodes_append:
  "run_nodes env lookup edges input_data (pre @ post) st =
     (case run_nodes env lookup edges input_data pre st of
        (Inl e, st1) \<Rightarrow> (Inl e, st1)
      | (Inr u, st1) \<Rightarrow> run_nodes env lookup edges input_data post st1)"
  by (induction pre arbitrary: st) (auto split: option.splits sum.splits prod.splits)

lemma run_nodes_outputs:
  assumes "run_nodes env lookup edges input_data pre st = (Inr u, st1)"
    and "distinct (map fst (node_outputs st) @ pre)"
  shows "\<exists>rs. length rs = length pre \<and>
           node_outputs st1 = node_outputs st @ map (\<lambda>p. (fst p, [(''value'', snd p)])) (zip pre rs)"
  using assms
proof (induction pre arbitrary: st)
  case Nil
  then show ?case by simp
next
  case (Cons nid rest)
  from Cons.prems(1) obtain node where n: "map_of lookup nid = Some node"
    by (auto split: option.splits)
  with Cons.prems(1) obtain result st' where
    e: "execute_node env node (resolve_input (node_outputs st) edges input_data nid) st = (Inr result, st')"
    by (auto split: sum.splits prod.splits)
  let ?st2 = "st'\<lparr>node_outputs := AList.update nid [(''value'', result)] (node_outputs st')\<rparr>"
  from Cons.prems(1) n e have r: "run_nodes env lookup edges input_data rest ?st2 = (Inr u, st1)"
    by simp
  have o: "node_outputs st' = node_outputs st"
    using execute_node_outputs [OF e] .
  have fresh: "nid \<notin> fst ` set (node_outputs st)"
    using Cons.prems(2) by auto
  have o2: "node_outputs ?st2 = node_outputs st @ [(nid, [(''value'', result)])]"
    using o update_fresh [OF fresh] by simp
  have "distinct (map fst (node_outputs ?st2) @ rest)"
    using Cons.prems(2) unfolding o2 by auto
  from Cons.IH [OF r this] obtain rs where
    rs: "length rs = length rest"
      "node_outputs st1 = node_outputs ?st2 @ map (\<lambda>p. (fst p, [(''value'', snd p)])) (zip rest rs)"
    by blast
  show ?case
    using rs unfolding o2 by (intro exI [of _ "result # rs"]) simp
qed

lemma stored_lookup:
  assumes "length rs = length pre" "distinct pre"
  shows "map_of (map (\<lambda>p. (fst p, [(''value'', snd p)])) (zip pre rs)) k =
           (if k \<in> set pre then Some [(''value'', the (map_of (zip pre rs) k))] else None)"
  using assms
proof (induction pre arbitrary: rs)
  case Nil
  then show ?case by simp
next
  case (Cons a pre)
  then obtain r rs' where "rs = r # rs'" by (cases rs) auto
  with Cons show ?case by auto
qed

lemma dict_update_single: "dict_update acc [(k, v)] = AList.update k v acc"
  by (simp add: dict_update_def)

lemma merge_singletons:
  assumes "\<forall>d\<in>set ds. \<exists>r. d = [(''value'', r)]" "acc = [] \<or> (\<exists>r. acc = [(''value'', r)])"
  shows "foldl dict_update acc ds = (if ds = [] then acc else last ds)"
  using assms
proof (induction ds arbitrary: acc)
  case Nil
  then show ?case by simp
next
  case (Cons d ds)
  then obtain r where d: "d = [(''value'', r)]" by auto
  with Cons.prems(2) have u: "dict_update acc d = d"
    by (auto simp: dict_update_single)
  have "foldl dict_update d ds = (if ds = [] then d else last ds)"
    using Cons.prems(1) d by (intro Cons.IH) auto
  with u show ?case by simp
qed

lemma get_node_inputs_filter:
  assumes "\<forall>e\<in>set edges. target e = nid \<longrightarrow>
             (if source e \<in> ids then map_of outs (source e) \<noteq> None else map_of outs (source e) = None)"
  shows "fold (\<lambda>e inputs.
             if target e = nid then
               (case map_of outs (source e) of None \<Rightarrow> inputs | Some out \<Rightarrow> dict_update inputs out)
             else inputs) edges acc
         = foldl dict_update acc
             (map (\<lambda>e. the (map_of outs (source e))) (filter (\<lambda>e. target e = nid \<and> source e \<in> ids) edges))"
  using assms
  by (induction edges arbitrary: acc) (auto split: option.splits)

lemma node_lookup_skip:
  "k \<notin> node_id ` set ns \<Longrightarrow>
   map_of (fold (\<lambda>n acc. AList.update (node_id n) n acc) ns acc) k = map_of acc k"
  by (induction ns arbitrary: acc) (auto simp: update_conv')

lemma node_lookup_fold:
  "distinct (map node_id ns) \<Longrightarrow> node \<in> set ns \<Longrightarrow>
   map_of (fold (\<lambda>n acc. AList.update (node_id n) n acc) ns acc) (node_id node) = Some node"
proof (induction ns arbitrary: acc)
  case Nil
  then show ?case by simp
next
  case (Cons n ns)
  show ?case
  proof (cases "node = n")
    case True
    with Cons.prems(1) show ?thesis
      by (simp add: node_lookup_skip update_conv')
  next
    case False
    with Cons show ?thesis by simp
  qed
qed

lemma node_lookup_Some:
  "distinct (map node_id nodes) \<Longrightarrow> node \<in> set nodes \<Longrightarrow>
   map_of (node_lookup nodes) (node_id node) = Some node"
  unfolding node_lookup_def by (rule node_lookup_fold)

lemma run_prefix_outputs:
  assumes b: "build_execution_graph nodes edges = Inr (pre @ nid # post)"
    and s: "node_outputs st0 = []"
    and r: "run_nodes env lookup edges input_data pre st0 = (Inr u, st1)"
  shows "map fst (node_outputs st1) = pre"
    and "\<forall>k\<in>set pre. \<exists>r. map_of (node_outputs st1) k = Some [(''value'', r)]"
    and "\<forall>k. k \<notin> set pre \<longrightarrow> map_of (node_outputs st1) k = None"
proof -
  from build_Inr_facts(2) [OF b] have d: "distinct pre" by simp
  with s have "distinct (map fst (node_outputs st0) @ pre)" by simp
  from run_nodes_outputs [OF r this] s obtain rs where
    rs: "length rs = length pre"
      "node_outputs st1 = map (\<lambda>p. (fst p, [(''value'', snd p)])) (zip pre rs)"
    by auto
  show "map fst (node_outputs st1) = pre"
    unfolding rs(2) using rs(1) by (simp add: comp_def)
  show "\<forall>k\<in>set pre. \<exists>r. map_of (node_outputs st1) k = Some [(''value'', r)]"
    unfolding rs(2) using stored_lookup [OF rs(1) d] by simp
  show "\<forall>k. k \<notin> set pre \<longrightarrow> map_of (node_outputs st1) k = None"
    unfolding rs(2) using stored_lookup [OF rs(1) d] by simp
qed

text \<open>
  Claim C3. When the loop reaches a node \<open>nid\<close> of the execution order, every node with an
  edge to \<open>nid\<close> has its output stored. The loop executes \<open>nid\<close> with the merge of these
  outputs in the order of the edge list, so that the output of the last such edge wins on
  the one key they share, and with the global input of the run when no node has an edge to
  \<open>nid\<close>; then it stores the result and goes on with the rest of the order.
\<close>

theorem resolve_input_in_run:
  assumes b: "build_execution_graph nodes edges = Inr (pre @ nid # post)"
    and s: "node_outputs st0 = []"
    and r: "run_nodes env (node_lookup nodes) edges input_data pre st0 = (Inr u, st1)"
  shows "(\<forall>e\<in>set (upstream_edges nodes edges nid).
            \<exists>v. map_of (node_outputs st1) (source e) = Some [(''value'', v)]) \<and>
         resolve_input (node_outputs st1) edges input_data nid =
           merged_input nodes edges (node_outputs st1) input_data nid \<and>
         (upstream_edges nodes edges nid \<noteq> [] \<longrightarrow>
            merged_input nodes edges (node_outputs st1) input_data nid =
              the (map_of (node_outputs st1) (source (last (upstream_edges nodes edges nid))))) \<and>
         (\<exists>node\<in>set nodes. node_id node = nid \<and>
            run_nodes env (node_lookup nodes) edges input_data (pre @ nid # post) st0 =
              (case execute_node env node
                      (merged_input nodes edges (node_outputs st1) input_data nid) st1 of
                 (Inl e, st2) \<Rightarrow> (Inl e, st2)
               | (Inr result, st2) \<Rightarrow>
                   run_nodes env (node_lookup nodes) edges input_data post
                     (st2\<lparr>node_outputs :=
                            AList.update nid [(''value'', result)] (node_outputs st2)\<rparr>)))"
proof -
  let ?ids = "node_id ` set nodes"
  let ?outs = "node_outputs st1"
  let ?up = "upstream_edges nodes edges nid"
  let ?ds = "map (\<lambda>e. the (map_of ?outs (source e))) ?up"
  let ?given = "merged_input nodes edges ?outs input_data nid"
  note o = run_prefix_outputs [OF b s r]
  from build_Inr_facts [OF b] have pf: "preds_first (filter (\<lambda>e. source e \<in> ?ids) edges) (pre @ nid # post)"
    and so: "set (pre @ nid # post) = ?ids"
    and dn: "distinct (map node_id nodes)"
    by simp_all
  have src: "source e \<in> set pre" if "e \<in> set ?up" for e
  proof -
    from that have "e \<in> set (filter (\<lambda>e. source e \<in> ?ids) edges)" "target e = (pre @ nid # post) ! length pre"
      by (auto simp: upstream_edges_def)
    moreover have "length pre < length (pre @ nid # post)" by simp
    ultimately have "source e \<in> set (take (length pre) (pre @ nid # post))"
      using pf unfolding preds_first_def by blast
    then show ?thesis by simp
  qed
  have stored: "\<forall>e\<in>set ?up. \<exists>v. map_of ?outs (source e) = Some [(''value'', v)]"
    using src o(2) by blast
  have cond: "\<forall>e\<in>set edges. target e = nid \<longrightarrow>
                (if source e \<in> ?ids then map_of ?outs (source e) \<noteq> None
                 else map_of ?outs (source e) = None)"
  proof (intro ballI impI)
    fix e assume e: "e \<in> set edges" "target e = nid"
    show "if source e \<in> ?ids then map_of ?outs (source e) \<noteq> None else map_of ?outs (source e) = None"
    proof (cases "source e \<in> ?ids")
      case True
      with e have "e \<in> set ?up" by (simp add: upstream_edges_def)
      with stored True show ?thesis by auto
    next
      case False
      with so have "source e \<notin> set pre" by auto
      with o(3) False show ?thesis by simp
    qed
  qed
  have g: "get_node_inputs ?outs nid edges = merge_outputs ?ds"
    unfolding get_node_inputs_def merge_outputs_def upstream_edges_def
    by (rule get_node_inputs_filter [OF cond])
  have single: "\<forall>d\<in>set ?ds. \<exists>v. d = [(''value'', v)]"
    using stored by auto
  have m: "merge_outputs ?ds = (if ?ds = [] then [] else last ?ds)"
    unfolding merge_outputs_def by (rule merge_singletons [OF single]) simp
  have ne: "merge_outputs ?ds \<noteq> []" if "?up \<noteq> []"
  proof -
    from that have "?ds \<noteq> []" by simp
    moreover from this have "last ?ds \<in> set ?ds" by (rule last_in_set)
    ultimately show ?thesis using m single by auto
  qed
  have res: "resolve_input ?outs edges input_data nid = ?given"
  proof (cases "?up = []")
    case True
    then show ?thesis by (simp add: resolve_input_def merged_input_def g merge_outputs_def)
  next
    case False
    with ne show ?thesis by (simp add: resolve_input_def merged_input_def g)
  qed
  have lastw: "?up \<noteq> [] \<longrightarrow> ?given = the (map_of ?outs (source (last ?up)))"
    using m by (simp add: merged_input_def last_map)
  have "nid \<in> node_id ` set nodes"
    using so by auto
  then obtain node where node: "node \<in> set nodes" "node_id node = nid"
    by auto
  from node_lookup_Some [OF dn node(1)] node(2) have lk: "map_of (node_lookup nodes) nid = Some node"
    by simp
  have run: "run_nodes env (node_lookup nodes) edges input_data (pre @ nid # post) st0 =
               (case execute_node env node ?given st1 of
                  (Inl e, st2) \<Rightarrow> (Inl e, st2)
                | (Inr result, st2) \<Rightarrow>
                    run_nodes env (node_lookup nodes) edges input_data post
                      (st2\<lparr>node_outputs :=
                             AList.update nid [(''value'', result)] (node_outputs st2)\<rparr>))"
    using r lk by (simp add: run_nodes_append res)
  from node run have ex: "\<exists>node\<in>set nodes. node_id node = nid \<and>
            run_nodes env (node_lookup nodes) edges input_data (pre @ nid # post) st0 =
              (case execute_node env node ?given st1 of
                 (Inl e, st2) \<Rightarrow> (Inl e, st2)
               | (Inr result, st2) \<Rightarrow>
                   run_nodes env (node_lookup nodes) edges input_data post
                     (st2\<lparr>node_outputs :=
                            AList.update nid [(''value'', result)] (node_outputs st2)\<rparr>))"
    by blast
  from stored res lastw ex show ?thesis
    by - (intro conjI, assumption+)
qed

text \<open>
  Claim C4. When the nodes before \<open>nid\<close> in the execution order have run and the node
  \<open>nid\<close> raises, \<^const>\<open>execute_workflow\<close> returns the status \<^verbatim>\<open>failed\<close> with the message
  of the error and the outputs stored so far: those of the nodes before \<open>nid\<close>, in their
  order, and none for \<open>nid\<close> or a later node. The final state is the state the failing node
  left, with one more log line: no later node has run.
\<close>

theorem execute_workflow_node_failure:
  fixes input_data :: "pyval dict option"
  defines "input_dict \<equiv> (case input_data of None \<Rightarrow> [] | Some d \<Rightarrow> d)"
  assumes b: "build_execution_graph nodes edges = Inr (pre @ nid # post)"
    and r: "run_nodes env (node_lookup nodes) edges input_dict pre (loop_start st (pre @ nid # post))
              = (Inr u, st1)"
    and n: "node \<in> set nodes" "node_id node = nid"
    and f: "execute_node env node (resolve_input (node_outputs st1) edges input_dict nid) st1 = (Inl e, st2)"
  shows "execute_workflow env nodes edges input_data st =
           ([(''status'', PStr ''failed''), (''error'', PStr (error_str e)),
             (''node_outputs'', outputs_value (node_outputs st1))],
            log (''Workflow execution failed: '' @ error_str e) ''ERROR'' st2) \<and>
         map fst (node_outputs st1) = pre \<and>
         (\<forall>k\<in>set pre. \<exists>v. map_of (node_outputs st1) k = Some [(''value'', v)]) \<and>
         (\<forall>k\<in>set (nid # post). map_of (node_outputs st1) k = None)"
proof -
  let ?order = "pre @ nid # post"
  let ?st = "loop_start st ?order"
  have s: "node_outputs ?st = []"
    by (simp add: loop_start_def)
  note o = run_prefix_outputs [OF b s r]
  from build_Inr_facts [OF b] have d: "distinct (map node_id nodes)" and dord: "distinct ?order"
    by simp_all
  from node_lookup_Some [OF d n(1)] n(2) have lk: "map_of (node_lookup nodes) nid = Some node"
    by simp
  have o2: "node_outputs st2 = node_outputs st1"
    using execute_node_outputs [OF f] .
  have "run_nodes env (node_lookup nodes) edges input_dict (nid # post) st1 = (Inl e, st2)"
    using lk f by simp
  with r have run: "run_nodes env (node_lookup nodes) edges input_dict ?order ?st = (Inl e, st2)"
    by (simp add: run_nodes_append)
  have body: "workflow_body env nodes edges input_dict
                (log ''Starting workflow execution'' ''INFO'' ((clear_logs st)\<lparr>node_outputs := []\<rparr>))
              = (Inl e, st2)"
    using b run by (simp add: workflow_body_def loop_start_def Let_def)
  have w: "execute_workflow env nodes edges input_data st =
           ([(''status'', PStr ''failed''), (''error'', PStr (error_str e)),
             (''node_outputs'', outputs_value (node_outputs st1))],
            log (''Workflow execution failed: '' @ error_str e) ''ERROR'' st2)"
    using body o2 unfolding execute_workflow_def input_dict_def [symmetric] Let_def by simp
  have later: "\<forall>k\<in>set (nid # post). map_of (node_outputs st1) k = None"
    using o(3) dord by auto
  from w o(1,2) later show ?thesis by blast
qed

lemma add_edges_no_nodes: "add_edges es [] [] = Inr ([], [])"
  by (induction es) auto

text \<open>
  Claim C10. With an empty node list the execution order is empty whatever the edges are,
  the loop runs no node, and \<^verbatim>\<open>execution_order[-1]\<close> raises \<^verbatim>\<open>IndexError\<close>, which the
  handler of \<^const>\<open>execute_workflow\<close> reports as a failed run.
\<close>

theorem execute_workflow_no_nodes:
  "execute_workflow env [] edges input_data st =
     ([(''status'', PStr ''failed''), (''error'', PStr ''list index out of range''),
       (''node_outputs'', PDict [])],
      st\<lparr>logs := [(''INFO'', ''Starting workflow execution''), (''INFO'', ''Execution order: []''),
                   (''ERROR'', ''Workflow execution failed: list index out of range'')],
         node_outputs := []\<rparr>)"
proof -
  have b: "build_execution_graph [] edges = Inr []"
    by (simp add: build_execution_graph_def add_edges_no_nodes kahn_loop.simps)
  show ?thesis
    by (simp add: execute_workflow_def workflow_body_def b Let_def log_def clear_logs_def
        outputs_value_def)
qed

section \<open>Single nodes: tables, delays, file reads\<close>

lemma table_rows_dicts:
  "table_rows hs (map PDict rows) = Inr (map (\<lambda>d. map (\<lambda>h. py_str (dict_get d h (PStr ''''))) hs) rows)"
  by (induction rows) (auto simp: table_row_def)

lemma fold_append_lines: "fold (\<lambda>row t. t @ f row) rows t0 = t0 @ concat (map f rows)"
  by (induction rows arbitrary: t0) auto

lemma format_as_table_dicts:
  "format_as_table (PList (map PDict (first # rest))) = Inr (table_text (map fst first) (first # rest))"
proof -
  have "table_rows (map fst first) (PDict first # map PDict rest)
          = Inr (map (\<lambda>d. map (\<lambda>h. py_str (dict_get d h (PStr ''''))) (map fst first)) (first # rest))"
    using table_rows_dicts [of "map fst first" "first # rest"] by simp
  then show ?thesis
    by (simp add: table_lines_def table_text_def Let_def fold_append_lines comp_def del: table_rows.simps)
qed

lemma format_as_table_other:
  "\<not> (\<exists>first rest. v = PList (PDict first # rest)) \<Longrightarrow> format_as_table v = Inr (py_str v)"
  by (induction v rule: format_as_table.induct) auto

text \<open>
  Claim C8, as the code has it. An output node with the format \<^verbatim>\<open>table\<close>, given a
  non-empty list of mappings, returns the header (the keys of the first mapping joined by
  \<^verbatim>\<open> | \<close>), then a line of dashes one longer than the header, then one line per
  element with the values under the headers; every line ends with a newline. The rows do
  not follow the header directly. A value that is not a list, an empty list, or a list
  whose first element is not a mapping is converted with \<^verbatim>\<open>str\<close>.
\<close>

theorem output_table_format:
  assumes "node_type node = ''output''"
    and "dict_get (node_data node) ''config'' (PDict []) = PDict cfg"
    and "dict_get cfg ''format'' (PStr ''raw'') = PStr ''table''"
  shows "(\<forall>first rest. dict_get input_data ''value'' (PStr '''') = PList (map PDict (first # rest)) \<longrightarrow>
            fst (execute_node env node input_data st)
              = Inr (PStr (table_text (map fst first) (first # rest)))) \<and>
         ((\<nexists>first rest. dict_get input_data ''value'' (PStr '''') = PList (PDict first # rest)) \<longrightarrow>
            fst (execute_node env node input_data st)
              = Inr (PStr (py_str (dict_get input_data ''value'' (PStr '''')))))"
proof -
  let ?v = "dict_get input_data ''value'' (PStr '''')"
  have e: "fst (execute_node env node input_data st) =
             (case format_as_table ?v of Inl e \<Rightarrow> Inl e | Inr t \<Rightarrow> Inr (PStr t))"
    using assms
    by (simp add: execute_node_def execute_node_body_def Let_def split: sum.splits)
  show ?thesis
    using format_as_table_dicts format_as_table_other [of ?v]
    unfolding e by (auto simp del: format_as_table.simps)
qed

text \<open>
  Claim C7, as the code has it. A delay node checks nothing about its duration and has no
  error of its own for it. For a number that is zero or negative \<^verbatim>\<open>asyncio.sleep\<close> returns
  at once, without a timer, and the node returns the message \<^verbatim>\<open>Delayed for d seconds\<close>. For
  a positive number the node waits on the timer of the event loop: it returns the message
  when the timer returns and raises what the timer raises. A duration that is not a
  number raises \<^verbatim>\<open>TypeError\<close>.
\<close>

theorem delay_has_no_sign_check:
  assumes "node_type node = ''action''"
    and "dict_get (node_data node) ''config'' (PDict []) = PDict cfg"
    and "dict_get cfg ''actionType'' (PStr ''log'') = PStr ''delay''"
    and "dict_get cfg ''actionConfig'' (PDict []) = PDict ac"
    and "dict_get ac ''delaySeconds'' (PInt 1) = d"
  shows "(le_zero d = Some True \<longrightarrow>
            execute_node env node input_data st =
              (Inr (PStr (''Delayed for '' @ py_str d @ '' seconds'')),
               log (''Delay completed after '' @ py_str d @ '' seconds'') ''INFO''
                 (log (''Starting delay for '' @ py_str d @ '' seconds'') ''INFO''
                    (log (''Executing node '' @ node_id node @ '' of type '' @ node_type node)
                       ''INFO'' st)))) \<and>
         (le_zero d = Some False \<longrightarrow>
            fst (execute_node env node input_data st) =
              (case fst (timer env d (ext st)) of
                 Inl e \<Rightarrow> Inl e
               | Inr u \<Rightarrow> Inr (PStr (''Delayed for '' @ py_str d @ '' seconds'')))) \<and>
         (le_zero d = None \<longrightarrow>
            (\<exists>m. fst (execute_node env node input_data st) = Inl (TypeError m)))"
  using assms
  by (auto simp: execute_node_def execute_node_body_def execute_action_def execute_delay_def
      asyncio_sleep_def external_def Let_def log_def split: prod.splits sum.splits)

text \<open>
  Claim C6, as the code has it. When the read of a \<^verbatim>\<open>file_operation\<close> node fails, the
  handler logs the failure and raises the error again, and so does \<^const>\<open>execute_node\<close>:
  the node has no output, and the error leaves the node for the run to stop on.
\<close>

theorem file_read_failure_raises:
  assumes "node_type node = ''action''"
    and "dict_get (node_data node) ''config'' (PDict []) = PDict cfg"
    and "dict_get cfg ''actionType'' (PStr ''log'') = PStr ''file_operation''"
    and "dict_get cfg ''actionConfig'' (PDict []) = PDict ac"
    and "dict_get ac ''operation'' (PStr ''read'') = PStr ''read''"
    and "py_bool (dict_get ac ''filePath'' (PStr ''''))"
    and "file_read env (dict_get ac ''filePath'' (PStr '''')) (ext st) = (Inl e, x)"
  shows "execute_node env node input_data st =
           (Inl e,
            log (''Error executing node '' @ node_id node @ '': '' @ error_str e) ''ERROR''
              (log (''File operation failed: '' @ error_str e) ''ERROR''
                 ((log (''Executing node '' @ node_id node @ '' of type '' @ node_type node) ''INFO'' st)
                    \<lparr>ext := x\<rparr>)))"
  using assms
  by (simp add: execute_node_def execute_node_body_def execute_action_def execute_file_operation_def
      file_operation_body_def external_def Let_def log_def)

section \<open>The theorems at concrete workflows\<close>

text \<open>The definitions a concrete run unfolds.\<close>

lemmas eval_defs =
  execute_node_def execute_node_body_def execute_action_def execute_file_operation_def
  file_operation_body_def execute_delay_def asyncio_sleep_def external_def Let_def log_def
  clear_logs_def dict_get_def offline_env_def idle_def plain_node_def action_node_def
  output_node_def link_def node_lookup_def resolve_input_def get_node_inputs_def dict_update_def
  loop_start_def outputs_value_def quoted_def str_repr_def escape_char_def table_row_def

theorem resolve_input_in_run_witness:
  "build_execution_graph
     [plain_node ''a'', action_node ''b'' ''log'' [(''message'', PStr ''m'')], output_node ''c'' ''raw'']
     [link ''a'' ''c'', link ''b'' ''c''] = Inr ([''a'', ''b''] @ ''c'' # []) \<and>
   node_outputs idle = [] \<and>
   fst (run_nodes offline_env
          (node_lookup [plain_node ''a'', action_node ''b'' ''log'' [(''message'', PStr ''m'')],
                        output_node ''c'' ''raw''])
          [link ''a'' ''c'', link ''b'' ''c''] [(''value'', PStr ''g'')] [''a'', ''b''] idle) = Inr () \<and>
   upstream_edges
     [plain_node ''a'', action_node ''b'' ''log'' [(''message'', PStr ''m'')], output_node ''c'' ''raw'']
     [link ''a'' ''c'', link ''b'' ''c''] ''c'' = [link ''a'' ''c'', link ''b'' ''c''] \<and>
   resolve_input
     (node_outputs (snd (run_nodes offline_env
          (node_lookup [plain_node ''a'', action_node ''b'' ''log'' [(''message'', PStr ''m'')],
                        output_node ''c'' ''raw''])
          [link ''a'' ''c'', link ''b'' ''c''] [(''value'', PStr ''g'')] [''a'', ''b''] idle)))
     [link ''a'' ''c'', link ''b'' ''c''] [(''value'', PStr ''g'')] ''c'' = [(''value'', PStr ''m'')] \<and>
   node_outputs (snd (run_nodes offline_env
          (node_lookup [plain_node ''a'', action_node ''b'' ''log'' [(''message'', PStr ''m'')],
                        output_node ''c'' ''raw''])
          [link ''a'' ''c'', link ''b'' ''c''] [(''value'', PStr ''g'')] [''a'', ''b'', ''c''] idle))
     = [(''a'', [(''value'', PStr ''g'')]), (''b'', [(''value'', PStr ''m'')]),
        (''c'', [(''value'', PStr ''m'')])]"
proof -
  let ?ns = "[plain_node ''a'', action_node ''b'' ''log'' [(''message'', PStr ''m'')], output_node ''c'' ''raw'']"
  let ?es = "[link ''a'' ''c'', link ''b'' ''c'']"
  let ?inp = "[(''value'', PStr ''g'')]"
  let ?run = "run_nodes offline_env (node_lookup ?ns) ?es ?inp [''a'', ''b''] idle"
  have b: "build_execution_graph ?ns ?es = Inr ([''a'', ''b''] @ ''c'' # [])"
    by (simp add: build_execution_graph_def plain_node_def action_node_def output_node_def link_def
        kahn_loop.simps)
  have s: "node_outputs idle = []"
    by (simp add: idle_def)
  have ok: "fst ?run = Inr ()" and outs: "node_outputs (snd ?run)
      = [(''a'', [(''value'', PStr ''g'')]), (''b'', [(''value'', PStr ''m'')])]"
    by (simp_all add: eval_defs)
  then have r: "?run = (Inr (), snd ?run)"
    by (metis prod.collapse)
  have up: "upstream_edges ?ns ?es ''c'' = ?es"
    by (simp add: upstream_edges_def plain_node_def action_node_def output_node_def link_def)
  have ne: "upstream_edges ?ns ?es ''c'' \<noteq> []"
    unfolding up by simp
  note t = resolve_input_in_run [OF b s r]
  have "resolve_input (node_outputs (snd ?run)) ?es ?inp ''c''
          = merged_input ?ns ?es (node_outputs (snd ?run)) ?inp ''c''"
    by (rule t [THEN conjunct2, THEN conjunct1])
  also have "\<dots> = the (map_of (node_outputs (snd ?run)) (source (last (upstream_edges ?ns ?es ''c''))))"
    by (rule t [THEN conjunct2, THEN conjunct2, THEN conjunct1, THEN mp, OF ne])
  also have "\<dots> = [(''value'', PStr ''m'')]"
    unfolding up outs by (simp add: link_def)
  finally have fin: "resolve_input (node_outputs (snd ?run)) ?es ?inp ''c'' = [(''value'', PStr ''m'')]" .
  have all: "node_outputs (snd (run_nodes offline_env (node_lookup ?ns) ?es ?inp [''a'', ''b'', ''c''] idle))
     = [(''a'', [(''value'', PStr ''g'')]), (''b'', [(''value'', PStr ''m'')]),
        (''c'', [(''value'', PStr ''m'')])]"
    by (simp add: eval_defs)
  from b s ok up fin all show ?thesis
    by - (intro conjI, assumption+)
qed

theorem execute_workflow_node_failure_witness:
  "build_execution_graph
     [plain_node ''n1'',
      action_node ''n2'' ''file_operation'' [(''operation'', PStr ''read''), (''filePath'', PStr ''/missing.txt'')],
      output_node ''n3'' ''raw'']
     [link ''n1'' ''n2'', link ''n2'' ''n3''] = Inr ([''n1''] @ ''n2'' # [''n3'']) \<and>
   execute_workflow offline_env
     [plain_node ''n1'',
      action_node ''n2'' ''file_operation'' [(''operation'', PStr ''read''), (''filePath'', PStr ''/missing.txt'')],
      output_node ''n3'' ''raw'']
     [link ''n1'' ''n2'', link ''n2'' ''n3''] (Some [(''value'', PStr ''hi'')]) idle =
     ([(''status'', PStr ''failed''),
       (''error'', PStr (''[Errno 2] No such file or directory: '' @ quoted ''/missing.txt'')),
       (''node_outputs'', PDict [(''n1'', PDict [(''value'', PStr ''hi'')])])],
      idle\<lparr>logs :=
             [(''INFO'', ''Starting workflow execution''),
              (''INFO'', ''Execution order: ['' @ quoted ''n1'' @ '', '' @ quoted ''n2'' @ '', ''
                           @ quoted ''n3'' @ '']''),
              (''INFO'', ''Executing node n1 of type input''),
              (''INFO'', ''Input node returned: hi''),
              (''INFO'', ''Executing node n2 of type action''),
              (''ERROR'', ''File operation failed: [Errno 2] No such file or directory: ''
                            @ quoted ''/missing.txt''),
              (''ERROR'', ''Error executing node n2: [Errno 2] No such file or directory: ''
                            @ quoted ''/missing.txt''),
              (''ERROR'', ''Workflow execution failed: [Errno 2] No such file or directory: ''
                            @ quoted ''/missing.txt'')],
           node_outputs := [(''n1'', [(''value'', PStr ''hi'')])]\<rparr>)"
proof -
  let ?reader = "action_node ''n2'' ''file_operation''
                   [(''operation'', PStr ''read''), (''filePath'', PStr ''/missing.txt'')]"
  let ?ns = "[plain_node ''n1'', ?reader, output_node ''n3'' ''raw'']"
  let ?es = "[link ''n1'' ''n2'', link ''n2'' ''n3'']"
  let ?inp = "[(''value'', PStr ''hi'')]"
  let ?st1 = "idle\<lparr>logs :=
                 [(''INFO'', ''Starting workflow execution''),
                  (''INFO'', ''Execution order: ['' @ quoted ''n1'' @ '', '' @ quoted ''n2'' @ '', ''
                               @ quoted ''n3'' @ '']''),
                  (''INFO'', ''Executing node n1 of type input''),
                  (''INFO'', ''Input node returned: hi'')],
               node_outputs := [(''n1'', [(''value'', PStr ''hi'')])]\<rparr>"
  let ?e = "FileNotFoundError ''/missing.txt''"
  let ?st2 = "?st1\<lparr>logs := logs ?st1 @
                 [(''INFO'', ''Executing node n2 of type action''),
                  (''ERROR'', ''File operation failed: [Errno 2] No such file or directory: ''
                                @ quoted ''/missing.txt''),
                  (''ERROR'', ''Error executing node n2: [Errno 2] No such file or directory: ''
                                @ quoted ''/missing.txt'')]\<rparr>"
  have b: "build_execution_graph ?ns ?es = Inr ([''n1''] @ ''n2'' # [''n3''])"
    by (simp add: build_execution_graph_def plain_node_def action_node_def output_node_def link_def
        kahn_loop.simps)
  have r: "run_nodes offline_env (node_lookup ?ns) ?es
             (case Some ?inp of None \<Rightarrow> [] | Some d \<Rightarrow> d) [''n1'']
             (loop_start idle ([''n1''] @ ''n2'' # [''n3''])) = (Inr (), ?st1)"
    by (simp add: eval_defs join.simps)
  have n: "?reader \<in> set ?ns" "node_id ?reader = ''n2''"
    by (simp_all add: action_node_def)
  have f: "execute_node offline_env ?reader
             (resolve_input (node_outputs ?st1) ?es (case Some ?inp of None \<Rightarrow> [] | Some d \<Rightarrow> d) ''n2'')
             ?st1 = (Inl ?e, ?st2)"
    by (simp add: eval_defs)
  have "execute_workflow offline_env ?ns ?es (Some ?inp) idle =
          ([(''status'', PStr ''failed''), (''error'', PStr (error_str ?e)),
            (''node_outputs'', outputs_value (node_outputs ?st1))],
           log (''Workflow execution failed: '' @ error_str ?e) ''ERROR'' ?st2)"
    by (rule execute_workflow_node_failure [OF b r n f, THEN conjunct1])
  also have "\<dots> =
     ([(''status'', PStr ''failed''),
       (''error'', PStr (''[Errno 2] No such file or directory: '' @ quoted ''/missing.txt'')),
       (''node_outputs'', PDict [(''n1'', PDict [(''value'', PStr ''hi'')])])],
      idle\<lparr>logs :=
             [(''INFO'', ''Starting workflow execution''),
              (''INFO'', ''Execution order: ['' @ quoted ''n1'' @ '', '' @ quoted ''n2'' @ '', ''
                           @ quoted ''n3'' @ '']''),
              (''INFO'', ''Executing node n1 of type input''),
              (''INFO'', ''Input node returned: hi''),
              (''INFO'', ''Executing node n2 of type action''),
              (''ERROR'', ''File operation failed: [Errno 2] No such file or directory: ''
                            @ quoted ''/missing.txt''),
              (''ERROR'', ''Error executing node n2: [Errno 2] No such file or directory: ''
                            @ quoted ''/missing.txt''),
              (''ERROR'', ''Workflow execution failed: [Errno 2] No such file or directory: ''
                            @ quoted ''/missing.txt'')],
           node_outputs := [(''n1'', [(''value'', PStr ''hi'')])]\<rparr>)"
    by (simp add: outputs_value_def log_def idle_def quoted_def str_repr_def escape_char_def Let_def)
  finally have w: "execute_workflow offline_env ?ns ?es (Some ?inp) idle =
     ([(''status'', PStr ''failed''),
       (''error'', PStr (''[Errno 2] No such file or directory: '' @ quoted ''/missing.txt'')),
       (''node_outputs'', PDict [(''n1'', PDict [(''value'', PStr ''hi'')])])],
      idle\<lparr>logs :=
             [(''INFO'', ''Starting workflow execution''),
              (''INFO'', ''Execution order: ['' @ quoted ''n1'' @ '', '' @ quoted ''n2'' @ '', ''
                           @ quoted ''n3'' @ '']''),
              (''INFO'', ''Executing node n1 of type input''),
              (''INFO'', ''Input node returned: hi''),
              (''INFO'', ''Executing node n2 of type action''),
              (''ERROR'', ''File operation failed: [Errno 2] No such file or directory: ''
                            @ quoted ''/missing.txt''),
              (''ERROR'', ''Error executing node n2: [Errno 2] No such file or directory: ''
                            @ quoted ''/missing.txt''),
              (''ERROR'', ''Workflow execution failed: [Errno 2] No such file or directory: ''
                            @ quoted ''/missing.txt'')],
           node_outputs := [(''n1'', [(''value'', PStr ''hi'')])]\<rparr>)" .
  from b w show ?thesis
    by - (intro conjI, assumption+)
qed

theorem file_read_failure_raises_witness:
  "node_type (action_node ''r'' ''file_operation''
                [(''operation'', PStr ''read''), (''filePath'', PStr ''/missing.txt'')]) = ''action'' \<and>
   py_bool (PStr ''/missing.txt'') \<and>
   file_read offline_env (PStr ''/missing.txt'') (ext idle) = (Inl (FileNotFoundError ''/missing.txt''), ()) \<and>
   fst (execute_node offline_env
          (action_node ''r'' ''file_operation''
             [(''operation'', PStr ''read''), (''filePath'', PStr ''/missing.txt'')])
          [(''value'', PStr ''x'')] idle) = Inl (FileNotFoundError ''/missing.txt'')"
proof -
  let ?ac = "[(''operation'', PStr ''read''), (''filePath'', PStr ''/missing.txt'')]"
  let ?cfg = "[(''actionType'', PStr ''file_operation''), (''actionConfig'', PDict ?ac)]"
  let ?node = "action_node ''r'' ''file_operation'' ?ac"
  have h1: "node_type ?node = ''action''"
    by (simp add: action_node_def)
  have h2: "dict_get (node_data ?node) ''config'' (PDict []) = PDict ?cfg"
    by (simp add: action_node_def dict_get_def)
  have h3: "dict_get ?cfg ''actionType'' (PStr ''log'') = PStr ''file_operation''"
    by (simp add: dict_get_def)
  have h4: "dict_get ?cfg ''actionConfig'' (PDict []) = PDict ?ac"
    by (simp add: dict_get_def)
  have h5: "dict_get ?ac ''operation'' (PStr ''read'') = PStr ''read''"
    by (simp add: dict_get_def)
  have p: "dict_get ?ac ''filePath'' (PStr '''') = PStr ''/missing.txt''"
    by (simp add: dict_get_def)
  have h6: "py_bool (dict_get ?ac ''filePath'' (PStr ''''))"
    unfolding p by simp
  have h7: "file_read offline_env (dict_get ?ac ''filePath'' (PStr '''')) (ext idle)
              = (Inl (FileNotFoundError ''/missing.txt''), ())"
    unfolding p by (simp add: offline_env_def)
  have "fst (execute_node offline_env ?node [(''value'', PStr ''x'')] idle)
          = Inl (FileNotFoundError ''/missing.txt'')"
    unfolding file_read_failure_raises [OF h1 h2 h3 h4 h5 h6 h7] by simp
  with h1 h6 h7 show ?thesis
    unfolding p by - (intro conjI, assumption+)
qed

theorem file_read_failure_counterexample:
  "fst (execute_node offline_env
          (action_node ''r'' ''file_operation''
             [(''operation'', PStr ''read''), (''filePath'', PStr ''/missing.txt'')])
          [] idle) = Inl (FileNotFoundError ''/missing.txt'') \<and>
   fst (execute_workflow offline_env
          [action_node ''r'' ''file_operation''
             [(''operation'', PStr ''read''), (''filePath'', PStr ''/missing.txt'')],
           output_node ''p'' ''raw'']
          [link ''r'' ''p''] None idle) =
     [(''status'', PStr ''failed''),
      (''error'', PStr (''[Errno 2] No such file or directory: '' @ quoted ''/missing.txt'')),
      (''node_outputs'', PDict [])]"
  by (simp add: execute_workflow_def workflow_body_def build_execution_graph_def kahn_loop.simps
      eval_defs)

theorem delay_has_no_sign_check_witness:
  "le_zero (PFloat ''-0.5'') = Some True \<and>
   fst (execute_node offline_env (action_node ''d'' ''delay'' [(''delaySeconds'', PFloat ''-0.5'')]) [] idle)
     = Inr (PStr ''Delayed for -0.5 seconds'') \<and>
   le_zero (PFloat ''0.5'') = Some False \<and>
   fst (execute_node offline_env (action_node ''d'' ''delay'' [(''delaySeconds'', PFloat ''0.5'')]) [] idle)
     = Inr (PStr ''Delayed for 0.5 seconds'') \<and>
   le_zero (PInt (10 ^ 309)) = Some False \<and>
   fst (execute_node offline_env (action_node ''d'' ''delay'' [(''delaySeconds'', PInt (10 ^ 309))]) [] idle)
     = Inl (OverflowError ''int too large to convert to float'') \<and>
   le_zero (PStr ''soon'') = None \<and>
   fst (execute_node offline_env (action_node ''d'' ''delay'' [(''delaySeconds'', PStr ''soon'')]) [] idle)
     = Inl (TypeError (quoted ''<='' @ '' not supported between instances of '' @ quoted ''str''
                         @ '' and '' @ quoted ''int''))"
proof -
  have h1: "node_type (action_node ''d'' ''delay'' [(''delaySeconds'', d)]) = ''action''" for d
    by (simp add: action_node_def)
  have h2: "dict_get (node_data (action_node ''d'' ''delay'' [(''delaySeconds'', d)])) ''config'' (PDict [])
              = PDict [(''actionType'', PStr ''delay''), (''actionConfig'', PDict [(''delaySeconds'', d)])]"
    for d
    by (simp add: action_node_def dict_get_def)
  have h3: "dict_get [(''actionType'', PStr ''delay''), (''actionConfig'', PDict [(''delaySeconds'', d)])]
              ''actionType'' (PStr ''log'') = PStr ''delay''" for d
    by (simp add: dict_get_def)
  have h4: "dict_get [(''actionType'', PStr ''delay''), (''actionConfig'', PDict [(''delaySeconds'', d)])]
              ''actionConfig'' (PDict []) = PDict [(''delaySeconds'', d)]" for d
    by (simp add: dict_get_def)
  have h5: "dict_get [(''delaySeconds'', d)] ''delaySeconds'' (PInt 1) = d" for d
    by (simp add: dict_get_def)
  note t = delay_has_no_sign_check [OF h1 h2 h3 h4 h5, of _ offline_env "[]" idle]
  have n: "le_zero (PFloat ''-0.5'') = Some True"
    by simp
  have a: "fst (execute_node offline_env (action_node ''d'' ''delay'' [(''delaySeconds'', PFloat ''-0.5'')]) [] idle)
             = Inr (PStr ''Delayed for -0.5 seconds'')"
    using t [of "PFloat ''-0.5''", THEN conjunct1, THEN mp, OF n] by simp
  have p: "le_zero (PFloat ''0.5'') = Some False"
    by simp
  have b: "fst (execute_node offline_env (action_node ''d'' ''delay'' [(''delaySeconds'', PFloat ''0.5'')]) [] idle)
             = Inr (PStr ''Delayed for 0.5 seconds'')"
    using t [of "PFloat ''0.5''", THEN conjunct2, THEN conjunct1, THEN mp, OF p]
    by (simp add: offline_env_def)
  have q: "le_zero (PInt (10 ^ 309)) = Some False"
    by simp
  have c: "fst (execute_node offline_env (action_node ''d'' ''delay'' [(''delaySeconds'', PInt (10 ^ 309))]) [] idle)
             = Inl (OverflowError ''int too large to convert to float'')"
    using t [of "PInt (10 ^ 309)", THEN conjunct2, THEN conjunct1, THEN mp, OF q]
    by (simp add: offline_env_def)
  have z: "le_zero (PStr ''soon'') = None"
    by simp
  have d: "fst (execute_node offline_env (action_node ''d'' ''delay'' [(''delaySeconds'', PStr ''soon'')]) [] idle)
             = Inl (TypeError (quoted ''<='' @ '' not supported between instances of '' @ quoted ''str''
                                 @ '' and '' @ quoted ''int''))"
    by (simp add: eval_defs)
  from n a p b q c z d show ?thesis
    by - (intro conjI, assumption+)
qed

theorem delay_negative_counterexample:
  "fst (execute_node offline_env (action_node ''d'' ''delay'' [(''delaySeconds'', PInt (- 5))]) [] idle)
     = Inr (PStr ''Delayed for -5 seconds'')"
  by (simp add: eval_defs int_str_def nat_digits.simps)

theorem output_table_format_witness:
  "node_type (output_node ''o'' ''table'') = ''output'' \<and>
   fst (execute_node offline_env (output_node ''o'' ''table'')
          [(''value'', PList (map PDict [[(''a'', PInt 1), (''b'', PInt 2)],
                                          [(''a'', PInt 3), (''b'', PInt 4)]]))] idle)
     = Inr (PStr (table_text [''a'', ''b''] [[(''a'', PInt 1), (''b'', PInt 2)],
                                               [(''a'', PInt 3), (''b'', PInt 4)]])) \<and>
   table_text [''a'', ''b''] [[(''a'', PInt 1), (''b'', PInt 2)], [(''a'', PInt 3), (''b'', PInt 4)]]
     = ''a | b\<newline>------\<newline>1 | 2\<newline>3 | 4\<newline>'' \<and>
   fst (execute_node offline_env (output_node ''o'' ''table'') [(''value'', PInt 7)] idle)
     = Inr (PStr ''7'')"
proof -
  let ?cfg = "[(''format'', PStr ''table'')]"
  let ?node = "output_node ''o'' ''table''"
  let ?r1 = "[(''a'', PInt 1), (''b'', PInt 2)]" and ?r2 = "[(''a'', PInt 3), (''b'', PInt 4)]"
  let ?in1 = "[(''value'', PList (map PDict [?r1, ?r2]))]"
  let ?in2 = "[(''value'', PInt 7)]"
  have h1: "node_type ?node = ''output''"
    by (simp add: output_node_def)
  have h2: "dict_get (node_data ?node) ''config'' (PDict []) = PDict ?cfg"
    by (simp add: output_node_def dict_get_def)
  have h3: "dict_get ?cfg ''format'' (PStr ''raw'') = PStr ''table''"
    by (simp add: dict_get_def)
  have v1: "dict_get ?in1 ''value'' (PStr '''') = PList (map PDict (?r1 # [?r2]))"
    by (simp add: dict_get_def)
  have v2: "dict_get ?in2 ''value'' (PStr '''') = PInt 7"
    by (simp add: dict_get_def)
  have n2: "\<nexists>first rest. dict_get ?in2 ''value'' (PStr '''') = PList (PDict first # rest)"
    unfolding v2 by simp
  note t1 = output_table_format [OF h1 h2 h3, of ?in1 offline_env idle, THEN conjunct1,
      THEN spec, THEN spec, THEN mp, OF v1]
  note t2 = output_table_format [OF h1 h2 h3, of ?in2 offline_env idle, THEN conjunct2, THEN mp, OF n2]
  have a: "fst (execute_node offline_env ?node ?in1 idle)
             = Inr (PStr (table_text [''a'', ''b''] [?r1, ?r2]))"
    using t1 by simp
  have tt: "table_text [''a'', ''b''] [?r1, ?r2] = ''a | b\<newline>------\<newline>1 | 2\<newline>3 | 4\<newline>''"
    by (simp add: table_text_def dict_get_def int_str_def nat_digits.simps)
  have c: "fst (execute_node offline_env ?node ?in2 idle) = Inr (PStr ''7'')"
    using t2 unfolding v2 by (simp add: int_str_def nat_digits.simps)
  from h1 a tt c show ?thesis
    by - (intro conjI, assumption+)
qed

theorem output_table_format_counterexample:
  "fst (execute_node offline_env (output_node ''o'' ''table'')
          [(''value'', PList [PDict [(''a'', PInt 1), (''b'', PInt 2)],
                              PDict [(''a'', PInt 3), (''b'', PInt 4)]])] idle)
     = Inr (PStr ''a | b\<newline>------\<newline>1 | 2\<newline>3 | 4\<newline>'') \<and>
   ''a | b\<newline>------\<newline>1 | 2\<newline>3 | 4\<newline>'' \<noteq> ''a | b\<newline>1 | 2\<newline>3 | 4\<newline>''"
  by (simp add: eval_defs table_lines_def int_str_def nat_digits.simps)

end
